theory Spec2Isabelle
  imports Complex_Main "HOL-Library.Word"
begin

section \<open>Python runtime pieces used by the generators\<close>

text \<open>
  The two scripts \<^verbatim>\<open>generate_simple_test.py\<close> and \<^verbatim>\<open>generate_test_data.py\<close> take no
  input: every routine builds a raw byte buffer and a metadata dictionary and writes both
  to disk. A routine is modelled as a value of type \<open>error + volume_files\<close>: the bytes of
  the \<^verbatim>\<open>.raw\<close> file and the dictionary handed to \<^verbatim>\<open>json.dump\<close>. The \<^verbatim>\<open>print\<close> calls and
  the file names are left out.
\<close>

datatype error = ZeroDivisionError | ValueError | IndexError | OverflowError

type_synonym byte = "8 word"

datatype json =
    JInt int
  | JFloat real
  | JStr string
  | JList "json list"
  | JDict "(string \<times> json) list"

record volume_files =
  raw :: "byte list"
  metadata :: json

text \<open>\<^verbatim>\<open>range(n)\<close> for a Python integer \<open>n\<close>: empty when \<open>n \<le> 0\<close>.\<close>

definition range_py :: "int \<Rightarrow> int list" where
  "range_py n = map int [0..<nat n]"

text \<open>\<^verbatim>\<open>for i in xs: body\<close> over a state, stopping at the first exception.\<close>

primrec for_loop :: "'i list \<Rightarrow> ('i \<Rightarrow> 's \<Rightarrow> error + 's) \<Rightarrow> 's \<Rightarrow> error + 's" where
  "for_loop [] body s = Inr s"
| "for_loop (i # rest) body s =
     (case body i s of Inl e \<Rightarrow> Inl e | Inr s' \<Rightarrow> for_loop rest body s')"

text \<open>\<^verbatim>\<open>a // b\<close> on Python integers: floor division, raising on a zero divisor.\<close>

definition floordiv :: "int \<Rightarrow> int \<Rightarrow> error + int" where
  "floordiv a b = (if b = 0 then Inl ZeroDivisionError else Inr (a div b))"

text \<open>\<^verbatim>\<open>data.append(value)\<close> on a \<^verbatim>\<open>bytearray\<close>: the value must be in \<^verbatim>\<open>range(256)\<close>.\<close>

definition bytearray_append :: "byte list \<Rightarrow> int \<Rightarrow> error + byte list" where
  "bytearray_append data v =
     (if 0 \<le> v \<and> v < 256 then Inr (data @ [word_of_int v]) else Inl ValueError)"

section \<open>generate_simple_test.py\<close>

subsection \<open>create_simple_test_volume\<close>

text \<open>
  The loop nest of lines 23 to 28, with the three local constants \<^verbatim>\<open>width\<close>,
  \<^verbatim>\<open>height\<close>, \<^verbatim>\<open>depth\<close> as parameters; the routine itself fixes them to 16.
\<close>

definition gradient_voxel :: "int \<Rightarrow> int \<Rightarrow> byte list \<Rightarrow> error + byte list" where
  "gradient_voxel depth z data =
     (case floordiv (z * 255) (depth - 1) of
        Inl e \<Rightarrow> Inl e
      | Inr v \<Rightarrow> bytearray_append data v)"

definition gradient_data :: "int \<Rightarrow> int \<Rightarrow> int \<Rightarrow> error + byte list" where
  "gradient_data width height depth =
     for_loop (range_py depth) (\<lambda>z.
       for_loop (range_py height) (\<lambda>y.
         for_loop (range_py width) (\<lambda>x. gradient_voxel depth z))) []"

definition create_simple_test_volume :: "error + volume_files" where
  "create_simple_test_volume =
     (let width = 16; height = 16; depth = 16 in
      case gradient_data width height depth of
        Inl e \<Rightarrow> Inl e
      | Inr data \<Rightarrow> Inr \<lparr>
          raw = data,
          metadata = JDict [
            (''dimensions'', JList [JInt width, JInt height, JInt depth]),
            (''dataType'', JStr ''uint8''),
            (''byteOrder'', JStr ''little-endian''),
            (''spacing'', JList [JFloat 1.0, JFloat 1.0, JFloat 1.0]),
            (''description'', JStr ''Simple 16x16x16 gradient test volume'')] \<rparr>)"

subsection \<open>create_checkerboard_test\<close>

definition checker_voxel :: "int \<Rightarrow> int \<Rightarrow> int \<Rightarrow> byte list \<Rightarrow> error + byte list" where
  "checker_voxel x y z data =
     (let bx = (x div 8) mod 2;
          by = (y div 8) mod 2;
          bz = (z div 8) mod 2;
          v = (if (bx + by + bz) mod 2 = 0 then 255 else 0)
      in bytearray_append data v)"

definition checker_data :: "int \<Rightarrow> int \<Rightarrow> int \<Rightarrow> error + byte list" where
  "checker_data width height depth =
     for_loop (range_py depth) (\<lambda>z.
       for_loop (range_py height) (\<lambda>y.
         for_loop (range_py width) (\<lambda>x. checker_voxel x y z))) []"

definition create_checkerboard_test :: "error + volume_files" where
  "create_checkerboard_test =
     (let width = 32; height = 32; depth = 32 in
      case checker_data width height depth of
        Inl e \<Rightarrow> Inl e
      | Inr data \<Rightarrow> Inr \<lparr>
          raw = data,
          metadata = JDict [
            (''dimensions'', JList [JInt width, JInt height, JInt depth]),
            (''dataType'', JStr ''uint8''),
            (''byteOrder'', JStr ''little-endian''),
            (''spacing'', JList [JFloat 1.0, JFloat 1.0, JFloat 1.0]),
            (''description'', JStr ''32x32x32 checkerboard pattern'')] \<rparr>)"

section \<open>The numpy pieces used by generate_test_data.py\<close>

subsection \<open>Arrays\<close>

text \<open>
  A three-dimensional \<^verbatim>\<open>ndarray\<close> as numpy holds it after \<^verbatim>\<open>np.zeros(shape, dtype)\<close>: the
  shape and one C-contiguous buffer, in which the element \<^verbatim>\<open>a[i, j, k]\<close> of an array of
  shape \<open>(n0, n1, n2)\<close> sits at position \<open>(i * n1 + j) * n2 + k\<close>.
\<close>

record 'a ndarray =
  shape :: "nat \<times> nat \<times> nat"
  buf :: "'a list"

definition np_zeros :: "nat \<times> nat \<times> nat \<Rightarrow> ('a::zero) ndarray" where
  "np_zeros shp = (case shp of (n0, n1, n2) \<Rightarrow>
     \<lparr>shape = shp, buf = replicate (n0 * n1 * n2) 0\<rparr>)"

fun flat_index :: "nat \<times> nat \<times> nat \<Rightarrow> nat \<times> nat \<times> nat \<Rightarrow> nat" where
  "flat_index (n0, n1, n2) (i, j, k) = (i * n1 + j) * n2 + k"

text \<open>An index along an axis of length \<open>n\<close>: negative indices count from the end.\<close>

definition norm_index :: "nat \<Rightarrow> int \<Rightarrow> error + nat" where
  "norm_index n i =
     (if 0 \<le> i \<and> i < int n then Inr (nat i)
      else if - int n \<le> i \<and> i < 0 then Inr (nat (i + int n))
      else Inl IndexError)"

definition norm_indices :: "nat \<times> nat \<times> nat \<Rightarrow> int \<times> int \<times> int \<Rightarrow> error + nat \<times> nat \<times> nat" where
  "norm_indices shp idx = (case shp of (n0, n1, n2) \<Rightarrow> case idx of (i, j, k) \<Rightarrow>
     case norm_index n0 i of Inl e \<Rightarrow> Inl e | Inr i' \<Rightarrow>
     case norm_index n1 j of Inl e \<Rightarrow> Inl e | Inr j' \<Rightarrow>
     case norm_index n2 k of Inl e \<Rightarrow> Inl e | Inr k' \<Rightarrow> Inr (i', j', k'))"

text \<open>\<^verbatim>\<open>a[i, j, k]\<close> and \<^verbatim>\<open>a[i, j, k] = v\<close>.\<close>

definition getitem :: "'a ndarray \<Rightarrow> int \<times> int \<times> int \<Rightarrow> error + 'a" where
  "getitem a idx =
     (case norm_indices (shape a) idx of
        Inl e \<Rightarrow> Inl e
      | Inr pos \<Rightarrow> Inr (buf a ! flat_index (shape a) pos))"

definition setitem :: "'a ndarray \<Rightarrow> int \<times> int \<times> int \<Rightarrow> 'a \<Rightarrow> error + 'a ndarray" where
  "setitem a idx v =
     (case norm_indices (shape a) idx of
        Inl e \<Rightarrow> Inl e
      | Inr pos \<Rightarrow> Inr (a\<lparr>buf := (buf a)[flat_index (shape a) pos := v]\<rparr>))"

text \<open>\<^verbatim>\<open>a[:, :, k] = v\<close>: every element whose last index is \<open>k\<close> is set to \<open>v\<close>.\<close>

definition setitem_last_axis :: "'a ndarray \<Rightarrow> int \<Rightarrow> 'a \<Rightarrow> error + 'a ndarray" where
  "setitem_last_axis a k v = (case shape a of (n0, n1, n2) \<Rightarrow>
     case norm_index n2 k of
       Inl e \<Rightarrow> Inl e
     | Inr k' \<Rightarrow> Inr (a\<lparr>buf :=
         fold (\<lambda>(i, j) b. b[flat_index (shape a) (i, j, k') := v])
           (List.product [0..<n0] [0..<n1]) (buf a)\<rparr>))"

text \<open>
  Storing a Python integer into an array of an unsigned dtype: an integer outside the
  range of the dtype raises \<^verbatim>\<open>OverflowError\<close> (older numpy versions wrap around instead;
  the generators only store integers in range).
\<close>

definition to_uint8 :: "int \<Rightarrow> error + 8 word" where
  "to_uint8 v = (if 0 \<le> v \<and> v \<le> 255 then Inr (word_of_int v) else Inl OverflowError)"

definition to_uint16 :: "int \<Rightarrow> error + 16 word" where
  "to_uint16 v = (if 0 \<le> v \<and> v \<le> 65535 then Inr (word_of_int v) else Inl OverflowError)"

text \<open>
  \<^verbatim>\<open>a.tofile(name)\<close>: the buffer in C order, each element in the byte order of the
  machine, which is taken to be little-endian, as the metadata declares.
\<close>

definition tofile_uint8 :: "8 word ndarray \<Rightarrow> byte list" where
  "tofile_uint8 a = buf a"

definition bytes_uint16 :: "16 word \<Rightarrow> byte list" where
  "bytes_uint16 w = [ucast w, ucast (drop_bit 8 w)]"

definition tofile_uint16 :: "16 word ndarray \<Rightarrow> byte list" where
  "tofile_uint16 a = concat (map bytes_uint16 (buf a))"

subsection \<open>Double precision arithmetic\<close>

text \<open>
  A finite \<^verbatim>\<open>float64\<close> is modelled by the real number it denotes. Every operation of
  IEEE 754 binary64 that the sphere generator uses (square root, division, subtraction,
  multiplication) returns the exact result rounded to the nearest representable number,
  ties to the even significand: 53 significant bits, the exponent of the unit in the last
  place never below \<open>-1074\<close>. The Python integers that enter the arithmetic (the sum of
  squares, \<^verbatim>\<open>radius\<close>, 1 and 4095) are small enough to convert exactly. Infinities and
  NaN are not modelled: the generator takes the root of a sum of squares, divides by 12,
  and no quantity exceeds 4095.
\<close>

definition round_half_even :: "real \<Rightarrow> int" where
  "round_half_even r =
     (let f = \<lfloor>r\<rfloor>; d = r - of_int f in
      if d < 1 / 2 then f
      else if 1 / 2 < d then f + 1
      else if even f then f else f + 1)"

definition f64_exponent :: "real \<Rightarrow> int" where
  "f64_exponent x = max \<lfloor>log 2 \<bar>x\<bar>\<rfloor> (- 1022)"

definition f64_ulp :: "real \<Rightarrow> real" where
  "f64_ulp x = 2 powr (of_int (f64_exponent x) - 52)"

definition f64_round :: "real \<Rightarrow> real" where
  "f64_round x =
     (if x = 0 then 0 else of_int (round_half_even (x / f64_ulp x)) * f64_ulp x)"

definition f64_sqrt :: "real \<Rightarrow> real" where
  "f64_sqrt x = f64_round (sqrt x)"

definition f64_div :: "real \<Rightarrow> real \<Rightarrow> real" where
  "f64_div x y = f64_round (x / y)"

definition f64_sub :: "real \<Rightarrow> real \<Rightarrow> real" where
  "f64_sub x y = f64_round (x - y)"

definition f64_mul :: "real \<Rightarrow> real \<Rightarrow> real" where
  "f64_mul x y = f64_round (x * y)"

text \<open>\<^verbatim>\<open>int(x)\<close> on a float: truncation towards zero.\<close>

definition int_of_float :: "real \<Rightarrow> int" where
  "int_of_float x = (if 0 \<le> x then \<lfloor>x\<rfloor> else \<lceil>x\<rceil>)"

section \<open>generate_test_data.py\<close>

subsection \<open>create_test_volume_uint8\<close>

definition gradient_step :: "int \<Rightarrow> 8 word ndarray \<Rightarrow> error + 8 word ndarray" where
  "gradient_step z volume =
     (case to_uint8 (z * 4) of
        Inl e \<Rightarrow> Inl e
      | Inr v \<Rightarrow> setitem_last_axis volume z v)"

definition volume_uint8 :: "error + 8 word ndarray" where
  "volume_uint8 = for_loop (range_py 64) gradient_step (np_zeros (64, 64, 64))"

definition create_test_volume_uint8 :: "error + volume_files" where
  "create_test_volume_uint8 =
     (case volume_uint8 of
        Inl e \<Rightarrow> Inl e
      | Inr volume \<Rightarrow> Inr \<lparr>
          raw = tofile_uint8 volume,
          metadata = JDict [
            (''dimensions'', JList [JInt 64, JInt 64, JInt 64]),
            (''dataType'', JStr ''uint8''),
            (''byteOrder'', JStr ''little-endian''),
            (''spacing'', JList [JFloat 1.0, JFloat 1.0, JFloat 1.0]),
            (''description'', JStr ''Test gradient volume (uint8)'')] \<rparr>)"

subsection \<open>create_test_volume_uint16\<close>

definition center :: int where
  "center = 16"

definition radius :: int where
  "radius = 12"

definition sphere_dist :: "int \<Rightarrow> int \<Rightarrow> int \<Rightarrow> real" where
  "sphere_dist x y z =
     f64_sqrt (of_int ((x - center) ^ 2 + (y - center) ^ 2 + (z - center) ^ 2))"

definition sphere_value :: "real \<Rightarrow> int" where
  "sphere_value dst =
     int_of_float (f64_mul (f64_sub 1 (f64_div dst (of_int radius))) 4095)"

definition sphere_voxel :: "int \<Rightarrow> int \<Rightarrow> int \<Rightarrow> 16 word ndarray \<Rightarrow> error + 16 word ndarray" where
  "sphere_voxel x y z volume =
     (let dst = sphere_dist x y z in
      if dst < of_int radius then
        (case to_uint16 (sphere_value dst) of
           Inl e \<Rightarrow> Inl e
         | Inr v \<Rightarrow> setitem volume (x, y, z) v)
      else Inr volume)"

definition volume_uint16 :: "error + 16 word ndarray" where
  "volume_uint16 =
     for_loop (range_py 32) (\<lambda>z.
       for_loop (range_py 32) (\<lambda>y.
         for_loop (range_py 32) (\<lambda>x. sphere_voxel x y z))) (np_zeros (32, 32, 32))"

definition create_test_volume_uint16 :: "error + volume_files" where
  "create_test_volume_uint16 =
     (case volume_uint16 of
        Inl e \<Rightarrow> Inl e
      | Inr volume \<Rightarrow> Inr \<lparr>
          raw = tofile_uint16 volume,
          metadata = JDict [
            (''dimensions'', JList [JInt 32, JInt 32, JInt 32]),
            (''dataType'', JStr ''uint16''),
            (''byteOrder'', JStr ''little-endian''),
            (''spacing'', JList [JFloat 1.0, JFloat 1.0, JFloat 1.0]),
            (''description'', JStr ''Test sphere volume (uint16)'')] \<rparr>)"

subsection \<open>create_test_volume_checker\<close>

definition block_size :: int where
  "block_size = 8"

definition checker_voxel_np :: "int \<Rightarrow> int \<Rightarrow> int \<Rightarrow> 8 word ndarray \<Rightarrow> error + 8 word ndarray" where
  "checker_voxel_np x y z volume =
     (let bx = (x div block_size) mod 2;
          by = (y div block_size) mod 2;
          bz = (z div block_size) mod 2
      in if (bx + by + bz) mod 2 = 0 then
           (case to_uint8 255 of
              Inl e \<Rightarrow> Inl e
            | Inr v \<Rightarrow> setitem volume (x, y, z) v)
         else Inr volume)"

definition volume_checker :: "error + 8 word ndarray" where
  "volume_checker =
     for_loop (range_py 64) (\<lambda>z.
       for_loop (range_py 64) (\<lambda>y.
         for_loop (range_py 64) (\<lambda>x. checker_voxel_np x y z))) (np_zeros (64, 64, 64))"

definition create_test_volume_checker :: "error + volume_files" where
  "create_test_volume_checker =
     (case volume_checker of
        Inl e \<Rightarrow> Inl e
      | Inr volume \<Rightarrow> Inr \<lparr>
          raw = tofile_uint8 volume,
          metadata = JDict [
            (''dimensions'', JList [JInt 64, JInt 64, JInt 64]),
            (''dataType'', JStr ''uint8''),
            (''byteOrder'', JStr ''little-endian''),
            (''spacing'', JList [JFloat 1.0, JFloat 1.0, JFloat 1.0]),
            (''description'', JStr ''3D checkerboard pattern'')] \<rparr>)"

section \<open>Notions used to state the properties\<close>

text \<open>The values appended by a loop nest with \<open>z\<close> outermost and \<open>x\<close> innermost.\<close>

definition scan_order :: "(int \<Rightarrow> int \<Rightarrow> int \<Rightarrow> 'a) \<Rightarrow> int \<Rightarrow> int \<Rightarrow> int \<Rightarrow> 'a list" where
  "scan_order f w h d =
     concat (map (\<lambda>z. concat (map (\<lambda>y. map (\<lambda>x. f x y z) (range_py w)) (range_py h)))
       (range_py d))"

text \<open>The exact distance of the voxel index \<open>(x, y, z)\<close> from the centre of the sphere.\<close>

definition euclid_dist :: "int \<Rightarrow> int \<Rightarrow> int \<Rightarrow> real" where
  "euclid_dist x y z =
     sqrt (of_int ((x - center) ^ 2 + (y - center) ^ 2 + (z - center) ^ 2))"

text \<open>
  How a consumer reads a voxel of an eight-bit \<^verbatim>\<open>.raw\<close> file from the sidecar alone: with
  \<^verbatim>\<open>dimensions = [width, height, depth]\<close>, the voxel \<open>(x, y, z)\<close> is the byte at position
  \<open>(z * height + y) * width + x\<close>.
\<close>

fun json_field :: "json \<Rightarrow> string \<Rightarrow> json option" where
  "json_field (JDict kvs) k = map_of kvs k"
| "json_field (JInt i) k = None"
| "json_field (JFloat r) k = None"
| "json_field (JStr s) k = None"
| "json_field (JList js) k = None"

fun int_triple :: "json \<Rightarrow> (int \<times> int \<times> int) option" where
  "int_triple (JList [JInt a, JInt b, JInt c]) = Some (a, b, c)"
| "int_triple j = None"

fun is_float_triple :: "json \<Rightarrow> bool" where
  "is_float_triple (JList [JFloat a, JFloat b, JFloat c]) = True"
| "is_float_triple j = False"

fun is_str :: "json \<Rightarrow> bool" where
  "is_str (JStr s) = True"
| "is_str j = False"

definition declared_dims :: "json \<Rightarrow> (int \<times> int \<times> int) option" where
  "declared_dims m = Option.bind (json_field m ''dimensions'') int_triple"

definition file_voxel :: "volume_files \<Rightarrow> nat \<Rightarrow> nat \<Rightarrow> nat \<Rightarrow> byte option" where
  "file_voxel f x y z =
     (case declared_dims (metadata f) of
        None \<Rightarrow> None
      | Some (w, h, d) \<Rightarrow>
          if x < nat w \<and> y < nat h \<and> z < nat d
          then Some (raw f ! ((z * nat h + y) * nat w + x)) else None)"

text \<open>The same for a sixteen-bit file: two bytes for each voxel, the low byte first.\<close>

definition file_voxel16 :: "volume_files \<Rightarrow> nat \<Rightarrow> nat \<Rightarrow> nat \<Rightarrow> 16 word option" where
  "file_voxel16 f x y z =
     (case declared_dims (metadata f) of
        None \<Rightarrow> None
      | Some (w, h, d) \<Rightarrow>
          if x < nat w \<and> y < nat h \<and> z < nat d
          then (let p = (z * nat h + y) * nat w + x
                in Some (word_of_nat (unat (raw f ! (2 * p)) + 256 * unat (raw f ! (2 * p + 1)))))
          else None)"

text \<open>The size in bytes of one element, as the \<^verbatim>\<open>dataType\<close> tag announces it.\<close>

definition dtype_size :: "string \<Rightarrow> nat option" where
  "dtype_size t =
     (if t = ''uint8'' then Some 1 else if t = ''uint16'' then Some 2 else None)"

definition declared_byte_size :: "json \<Rightarrow> nat option" where
  "declared_byte_size m =
     (case (declared_dims m, json_field m ''dataType'') of
        (Some (w, h, d), Some (JStr t)) \<Rightarrow>
          map_option (\<lambda>n. nat w * nat h * nat d * n) (dtype_size t)
      | _ \<Rightarrow> None)"

text \<open>The shape of a sidecar: the five fields, in the order written, and their types.\<close>

definition sidecar_fields :: "json \<Rightarrow> string list" where
  "sidecar_fields m = (case m of JDict kvs \<Rightarrow> map fst kvs | _ \<Rightarrow> [])"

definition well_formed_sidecar :: "int \<times> int \<times> int \<Rightarrow> string \<Rightarrow> json \<Rightarrow> bool" where
  "well_formed_sidecar dims dtype m \<longleftrightarrow>
     sidecar_fields m =
       [''dimensions'', ''dataType'', ''byteOrder'', ''spacing'', ''description''] \<and>
     declared_dims m = Some dims \<and>
     json_field m ''dataType'' = Some (JStr dtype) \<and>
     json_field m ''byteOrder'' = Some (JStr ''little-endian'') \<and>
     (case json_field m ''spacing'' of None \<Rightarrow> False | Some s \<Rightarrow> is_float_triple s) \<and>
     (case json_field m ''description'' of None \<Rightarrow> False | Some s \<Rightarrow> is_str s)"

text \<open>What a run of a generator leaves behind, \<open>None\<close> when it raised.\<close>

definition metadata_of :: "error + volume_files \<Rightarrow> json option" where
  "metadata_of g = (case g of Inl e \<Rightarrow> None | Inr f \<Rightarrow> Some (metadata f))"

definition raw_length_of :: "error + volume_files \<Rightarrow> nat option" where
  "raw_length_of g = (case g of Inl e \<Rightarrow> None | Inr f \<Rightarrow> Some (length (raw f)))"

definition declared_size_of :: "error + volume_files \<Rightarrow> nat option" where
  "declared_size_of g = (case g of Inl e \<Rightarrow> None | Inr f \<Rightarrow> declared_byte_size (metadata f))"

definition file_voxel_of :: "error + volume_files \<Rightarrow> nat \<Rightarrow> nat \<Rightarrow> nat \<Rightarrow> byte option" where
  "file_voxel_of g x y z = (case g of Inl e \<Rightarrow> None | Inr f \<Rightarrow> file_voxel f x y z)"

definition file_voxel16_of :: "error + volume_files \<Rightarrow> nat \<Rightarrow> nat \<Rightarrow> nat \<Rightarrow> 16 word option" where
  "file_voxel16_of g x y z = (case g of Inl e \<Rightarrow> None | Inr f \<Rightarrow> file_voxel16 f x y z)"

text \<open>The element \<^verbatim>\<open>volume[x, y, z]\<close> of the array a numpy generator has built.\<close>

definition voxel_of :: "error + 'a ndarray \<Rightarrow> int \<times> int \<times> int \<Rightarrow> error + 'a" where
  "voxel_of v idx = (case v of Inl e \<Rightarrow> Inl e | Inr a \<Rightarrow> getitem a idx)"

text \<open>Block coordinates of the checkerboards, and blocks that are neighbours along one axis.\<close>

definition block_of :: "int \<times> int \<times> int \<Rightarrow> int \<times> int \<times> int" where
  "block_of idx = (case idx of (x, y, z) \<Rightarrow> (x div 8, y div 8, z div 8))"

definition adjacent_blocks :: "int \<times> int \<times> int \<Rightarrow> int \<times> int \<times> int \<Rightarrow> bool" where
  "adjacent_blocks b b' = (case b of (bx, by, bz) \<Rightarrow> case b' of (bx', by', bz') \<Rightarrow>
     (\<bar>bx - bx'\<bar> = 1 \<and> by = by' \<and> bz = bz') \<or>
     (bx = bx' \<and> \<bar>by - by'\<bar> = 1 \<and> bz = bz') \<or>
     (bx = bx' \<and> by = by' \<and> \<bar>bz - bz'\<bar> = 1))"

definition opposite :: "byte \<Rightarrow> byte \<Rightarrow> bool" where
  "opposite v v' \<longleftrightarrow> (v = 255 \<and> v' = 0) \<or> (v = 0 \<and> v' = 255)"

text \<open>
  The relation between an array before and after a piece of code that stores \<open>G p\<close> at
  every buffer position \<open>p\<close> of \<open>W\<close> and touches nothing else.
\<close>

definition writes_only :: "nat set \<Rightarrow> (nat \<Rightarrow> 'a) \<Rightarrow> 'a ndarray \<Rightarrow> 'a ndarray \<Rightarrow> bool" where
  "writes_only W G a a' \<longleftrightarrow>
     shape a' = shape a \<and> length (buf a') = length (buf a) \<and>
     (\<forall>p < length (buf a). buf a' ! p = (if p \<in> W then G p else buf a ! p))"

section \<open>Loops that only append\<close>

lemma for_loop_appends:
  "(\<And>i s. i \<in> set xs \<Longrightarrow> body i s = Inr (s @ g i)) \<Longrightarrow>
   for_loop xs body s = Inr (s @ concat (map g xs))"
  by (induction xs arbitrary: s) simp_all

lemma length_concat_upt:
  "(\<And>i. i < n \<Longrightarrow> length (g i) = m) \<Longrightarrow> length (concat (map g [0..<n])) = n * m"
  by (induction n) simp_all

lemma nth_concat_upt:
  assumes len: "\<And>i. i < n \<Longrightarrow> length (g i) = m"
      and i: "i < n" and j: "j < m"
  shows "concat (map g [0..<n]) ! (i * m + j) = g i ! j"
  using len i
proof (induction n)
  case 0
  then show ?case by simp
next
  case (Suc n)
  have L: "length (concat (map g [0..<n])) = n * m"
    using Suc.prems(1) by (intro length_concat_upt) simp
  show ?case
  proof (cases "i < n")
    case True
    then have "i * m + j < n * m"
      using j by (metis add_less_cancel_left less_le_trans mult_Suc mult_le_mono1 Suc_leI add.commute)
    with True Suc show ?thesis by (simp add: nth_append L)
  next
    case False
    with Suc.prems(2) have "i = n" by simp
    then show ?thesis by (simp add: nth_append L)
  qed
qed

lemma set_range_py: "i \<in> set (range_py n) \<longleftrightarrow> 0 \<le> i \<and> i < n"
  by (auto simp: range_py_def image_iff intro: bexI [of _ "nat i"])

lemma length_range_py: "length (range_py n) = nat n"
  by (simp add: range_py_def)

lemma concat_singletons: "concat (map (\<lambda>x. [f x]) xs) = map f xs"
  by (induction xs) simp_all

lemma loops_append_scan:
  assumes "\<And>x y z s. x \<in> set (range_py w) \<Longrightarrow> y \<in> set (range_py h) \<Longrightarrow> z \<in> set (range_py d)
             \<Longrightarrow> body x y z s = Inr (s @ [f x y z])"
  shows "for_loop (range_py d) (\<lambda>z. for_loop (range_py h) (\<lambda>y.
           for_loop (range_py w) (\<lambda>x. body x y z))) s = Inr (s @ scan_order f w h d)"
proof -
  have inner: "for_loop (range_py w) (\<lambda>x. body x y z) s = Inr (s @ map (\<lambda>x. f x y z) (range_py w))"
    if "y \<in> set (range_py h)" "z \<in> set (range_py d)" for y z s
    using for_loop_appends [of "range_py w" "\<lambda>x. body x y z" "\<lambda>x. [f x y z]" s] assms that
    by (simp add: concat_singletons)
  have middle: "for_loop (range_py h) (\<lambda>y. for_loop (range_py w) (\<lambda>x. body x y z)) s
      = Inr (s @ concat (map (\<lambda>y. map (\<lambda>x. f x y z) (range_py w)) (range_py h)))"
    if "z \<in> set (range_py d)" for z s
    using that
    by (intro for_loop_appends [where g = "\<lambda>y. map (\<lambda>x. f x y z) (range_py w)"]) (simp add: inner)
  show ?thesis
    unfolding scan_order_def
    by (intro for_loop_appends [where g = "\<lambda>z. concat (map (\<lambda>y. map (\<lambda>x. f x y z) (range_py w)) (range_py h))"])
       (simp add: middle)
qed

lemma length_scan_order: "length (scan_order f w h d) = nat d * (nat h * nat w)"
proof -
  have "scan_order f w h d = concat (map (\<lambda>z. concat (map (\<lambda>y. map (\<lambda>x. f (int x) (int y) (int z)) [0..<nat w]) [0..<nat h])) [0..<nat d])"
    by (simp add: scan_order_def range_py_def comp_def)
  also have "length \<dots> = nat d * (nat h * nat w)"
    by (intro length_concat_upt) simp
  finally show ?thesis .
qed

lemma nth_scan_order:
  assumes "x < nat w" "y < nat h" "z < nat d"
  shows "scan_order f w h d ! ((z * nat h + y) * nat w + x) = f (int x) (int y) (int z)"
proof -
  let ?row = "\<lambda>z y. map (\<lambda>x. f (int x) (int y) (int z)) [0..<nat w]"
  let ?slice = "\<lambda>z. concat (map (?row z) [0..<nat h])"
  have eq: "scan_order f w h d = concat (map ?slice [0..<nat d])"
    by (simp add: scan_order_def range_py_def comp_def)
  have len: "length (?slice k) = nat h * nat w" for k
    by (intro length_concat_upt) simp
  have "y * nat w + x < nat h * nat w"
  proof -
    have "y * nat w + x < Suc y * nat w" using assms(1) by simp
    also have "\<dots> \<le> nat h * nat w" using assms(2) by (intro mult_le_mono1) simp
    finally show ?thesis .
  qed
  then have "concat (map ?slice [0..<nat d]) ! (z * (nat h * nat w) + (y * nat w + x))
      = ?slice z ! (y * nat w + x)"
    using assms(3) len by (intro nth_concat_upt) simp_all
  also have "\<dots> = ?row z y ! x"
    using assms by (intro nth_concat_upt) simp_all
  also have "\<dots> = f (int x) (int y) (int z)" using assms(1) by simp
  finally show ?thesis by (simp add: eq algebra_simps)
qed

section \<open>The byte buffers of generate_simple_test.py\<close>

lemma gradient_voxel_ok:
  assumes "2 \<le> depth" "0 \<le> z" "z < depth"
  shows "gradient_voxel depth z data = Inr (data @ [word_of_int ((z * 255) div (depth - 1))])"
proof -
  define m where "m = depth - 1"
  have pos: "0 < m" and zm: "z \<le> m" using assms by (simp_all add: m_def)
  have lo: "0 \<le> (z * 255) div m"
    using assms pos by (simp add: pos_imp_zdiv_nonneg_iff)
  have "z * 255 \<le> 255 * m" using zm by simp
  then have "(z * 255) div m \<le> (255 * m) div m"
    using pos by (rule zdiv_mono1)
  then have "(z * 255) div m \<le> 255"
    using pos by simp
  with lo pos show ?thesis
    unfolding m_def [symmetric] gradient_voxel_def floordiv_def bytearray_append_def
    by (simp add: m_def [symmetric])
qed

lemma gradient_data_ok:
  assumes "2 \<le> depth"
  shows "gradient_data width height depth =
    Inr (scan_order (\<lambda>x y z. word_of_int ((z * 255) div (depth - 1))) width height depth)"
  unfolding gradient_data_def
  using loops_append_scan [of width height depth "\<lambda>x y z. gradient_voxel depth z"
      "\<lambda>x y z. word_of_int ((z * 255) div (depth - 1))" "[]"] assms
  by (simp add: gradient_voxel_ok set_range_py)

lemma for_loop_raises:
  "body i s = Inl e \<Longrightarrow> for_loop (i # rest) body s = Inl e"
  by simp

lemma range_py_nonpos: "n \<le> 0 \<Longrightarrow> range_py n = []"
  by (simp add: range_py_def)

lemma range_py_pos: "0 < n \<Longrightarrow> range_py n = 0 # map int [1..<nat n]"
  by (simp add: range_py_def upt_conv_Cons)

lemma gradient_data_depth_one:
  assumes "0 < width" "0 < height"
  shows "gradient_data width height 1 = Inl ZeroDivisionError"
  using assms
  by (simp add: gradient_data_def range_py_pos gradient_voxel_def floordiv_def)

lemma gradient_data_empty:
  assumes "depth \<le> 0 \<or> height \<le> 0 \<or> width \<le> 0"
  shows "gradient_data width height depth = Inr []"
proof -
  have skip0: "for_loop xs (\<lambda>i. Inr) s = Inr s" for xs :: "int list" and s :: "byte list"
    by (induction xs) simp_all
  have skip: "for_loop xs (\<lambda>i. Inr) = (Inr :: byte list \<Rightarrow> error + byte list)" for xs :: "int list"
    by (rule ext) (rule skip0)
  have nil: "for_loop [] body = Inr" for body :: "int \<Rightarrow> byte list \<Rightarrow> error + byte list"
    by (rule ext) simp
  consider "depth \<le> 0" | "height \<le> 0" | "width \<le> 0" using assms by blast
  then show ?thesis
  proof cases
    case 1 then show ?thesis by (simp add: gradient_data_def range_py_nonpos)
  next
    case 2 then show ?thesis by (simp add: gradient_data_def range_py_nonpos skip nil)
  next
    case 3 then show ?thesis by (simp add: gradient_data_def range_py_nonpos skip nil)
  qed
qed

lemma parity_sum_mod2: "(a mod 2 + b mod 2 + c mod 2) mod 2 = (a + b + c) mod (2::int)"
  by presburger

lemma checker_voxel_ok:
  "checker_voxel x y z data = Inr (data @ [if (x div 8 + y div 8 + z div 8) mod 2 = 0 then 255 else 0])"
proof -
  have "((x div 8) mod 2 + (y div 8) mod 2 + (z div 8) mod 2) mod 2 = (x div 8 + y div 8 + z div 8) mod 2"
    by (rule parity_sum_mod2)
  then show ?thesis
    by (simp add: checker_voxel_def bytearray_append_def Let_def)
qed

lemma checker_data_ok:
  "checker_data width height depth =
    Inr (scan_order (\<lambda>x y z. if (x div 8 + y div 8 + z div 8) mod 2 = 0 then 255 else 0) width height depth)"
  unfolding checker_data_def
  using loops_append_scan [of width height depth checker_voxel
      "\<lambda>x y z. if (x div 8 + y div 8 + z div 8) mod 2 = 0 then 255 else 0" "[]"]
  by (simp add: checker_voxel_ok)

lemma create_simple_test_volume_eq:
  "create_simple_test_volume = Inr \<lparr>
     raw = scan_order (\<lambda>x y z. word_of_int ((z * 255) div 15)) 16 16 16,
     metadata = JDict [
       (''dimensions'', JList [JInt 16, JInt 16, JInt 16]),
       (''dataType'', JStr ''uint8''),
       (''byteOrder'', JStr ''little-endian''),
       (''spacing'', JList [JFloat 1.0, JFloat 1.0, JFloat 1.0]),
       (''description'', JStr ''Simple 16x16x16 gradient test volume'')] \<rparr>"
  by (simp add: create_simple_test_volume_def gradient_data_ok)

lemma simple_raw_nth:
  assumes "create_simple_test_volume = Inr f" "x < 16" "y < 16" "z < 16"
  shows "raw f ! ((z * 16 + y) * 16 + x) = word_of_int ((int z * 255) div 15)"
proof -
  have "raw f = scan_order (\<lambda>x y z. word_of_int ((z * 255) div 15)) 16 16 16"
    using assms(1) by (auto simp: create_simple_test_volume_eq)
  moreover have "scan_order (\<lambda>x y z. word_of_int ((z * 255) div 15) :: byte) 16 16 16
      ! ((z * nat 16 + y) * nat 16 + x) = word_of_int ((int z * 255) div 15)"
    using assms(2-4) by (intro nth_scan_order) simp_all
  ultimately show ?thesis by simp
qed

lemma simple_raw_length:
  assumes "create_simple_test_volume = Inr f"
  shows "length (raw f) = 4096"
  using assms by (auto simp: create_simple_test_volume_eq length_scan_order)

section \<open>Loops that store into an array\<close>

lemma writes_only_refl: "writes_only {} G a a"
  by (simp add: writes_only_def)

lemma writes_only_trans:
  "writes_only W1 G a a1 \<Longrightarrow> writes_only W2 G a1 a2 \<Longrightarrow> writes_only (W1 \<union> W2) G a a2"
  by (auto simp: writes_only_def)

lemma for_loop_writes:
  assumes step: "\<And>i a. i \<in> set xs \<Longrightarrow> shape a = shp \<Longrightarrow> length (buf a) = N \<Longrightarrow>
                   \<exists>a'. body i a = Inr a' \<and> writes_only (W i) G a a'"
      and a: "shape a = shp" "length (buf a) = N"
  shows "\<exists>a'. for_loop xs body a = Inr a' \<and> writes_only (\<Union>i\<in>set xs. W i) G a a'"
  using assms
proof (induction xs arbitrary: a)
  case Nil
  then show ?case by (simp add: writes_only_refl)
next
  case (Cons i xs)
  obtain a1 where a1: "body i a = Inr a1" "writes_only (W i) G a a1"
    using Cons.prems(1) [of i a] Cons.prems(2,3) by auto
  have inv: "shape a1 = shp" "length (buf a1) = N"
    using a1(2) Cons.prems(2,3) by (simp_all add: writes_only_def)
  obtain a2 where a2: "for_loop xs body a1 = Inr a2" "writes_only (\<Union>i\<in>set xs. W i) G a1 a2"
    using Cons.IH [of a1] Cons.prems(1) inv by auto
  have "writes_only (W i \<union> (\<Union>i\<in>set xs. W i)) G a a2"
    using a1(2) a2(2) by (rule writes_only_trans)
  then show ?case using a1(1) a2(1) by simp
qed

lemma flat_index_bound:
  assumes "i < n0" "j < n1" "k < n2"
  shows "flat_index (n0, n1, n2) (i, j, k) < n0 * n1 * n2"
proof -
  have "i * n1 + j < Suc i * n1" using assms(2) by simp
  also have "\<dots> \<le> n0 * n1" using assms(1) by (intro mult_le_mono1) simp
  finally have ij: "i * n1 + j < n0 * n1" .
  have "(i * n1 + j) * n2 + k < Suc (i * n1 + j) * n2" using assms(3) by simp
  also have "\<dots> \<le> (n0 * n1) * n2" using ij by (intro mult_le_mono1) simp
  finally show ?thesis by simp
qed

lemma flat_index_inverse:
  assumes "j < n1" "k < n2"
  shows "flat_index (n0, n1, n2) (i, j, k) mod n2 = k"
    and "(flat_index (n0, n1, n2) (i, j, k) div n2) mod n1 = j"
    and "(flat_index (n0, n1, n2) (i, j, k) div n2) div n1 = i"
  using assms by simp_all

lemma flat_index_inj:
  assumes "j < n1" "k < n2" "j' < n1" "k' < n2"
      and "flat_index (n0, n1, n2) (i, j, k) = flat_index (n0, n1, n2) (i', j', k')"
  shows "i = i' \<and> j = j' \<and> k = k'"
  using flat_index_inverse [OF assms(1,2), of n0 i] flat_index_inverse [OF assms(3,4), of n0 i']
    assms(5) by metis

lemma norm_indices_in_range:
  assumes "0 \<le> x" "x < int n0" "0 \<le> y" "y < int n1" "0 \<le> z" "z < int n2"
  shows "norm_indices (n0, n1, n2) (x, y, z) = Inr (nat x, nat y, nat z)"
  using assms by (simp add: norm_indices_def norm_index_def)

lemma setitem_writes:
  assumes "0 \<le> x" "x < int n0" "0 \<le> y" "y < int n1" "0 \<le> z" "z < int n2"
      and "shape a = (n0, n1, n2)" "length (buf a) = n0 * n1 * n2"
      and "G (flat_index (n0, n1, n2) (nat x, nat y, nat z)) = v"
  shows "\<exists>a'. setitem a (x, y, z) v = Inr a' \<and>
           writes_only {flat_index (n0, n1, n2) (nat x, nat y, nat z)} G a a'"
proof -
  let ?p = "flat_index (n0, n1, n2) (nat x, nat y, nat z)"
  have "?p < length (buf a)"
    unfolding assms(8) using assms(1-6) by (intro flat_index_bound) simp_all
  then have "writes_only {?p} G a (a\<lparr>buf := (buf a)[?p := v]\<rparr>)"
    using assms(9) by (simp add: writes_only_def nth_list_update)
  moreover have "setitem a (x, y, z) v = Inr (a\<lparr>buf := (buf a)[?p := v]\<rparr>)"
    using assms(1-7) by (simp add: setitem_def norm_indices_in_range)
  ultimately show ?thesis by blast
qed

lemma getitem_in_range:
  assumes "0 \<le> x" "x < int n0" "0 \<le> y" "y < int n1" "0 \<le> z" "z < int n2"
      and "shape a = (n0, n1, n2)"
  shows "getitem a (x, y, z) = Inr (buf a ! flat_index (n0, n1, n2) (nat x, nat y, nat z))"
  using assms by (simp add: getitem_def norm_indices_in_range)

lemma np_zeros_shape: "shape (np_zeros (n0, n1, n2)) = (n0, n1, n2)"
  and np_zeros_length: "length (buf (np_zeros (n0, n1, n2))) = n0 * n1 * n2"
  and np_zeros_nth: "p < n0 * n1 * n2 \<Longrightarrow> buf (np_zeros (n0, n1, n2)) ! p = 0"
  by (simp_all add: np_zeros_def)

lemma voxel_loops_writes:
  fixes body :: "int \<Rightarrow> int \<Rightarrow> int \<Rightarrow> ('a::zero) ndarray \<Rightarrow> error + 'a ndarray"
  assumes body: "\<And>x y z a. 0 \<le> x \<Longrightarrow> x < int n0 \<Longrightarrow> 0 \<le> y \<Longrightarrow> y < int n1 \<Longrightarrow>
        0 \<le> z \<Longrightarrow> z < int n2 \<Longrightarrow> shape a = (n0, n1, n2) \<Longrightarrow> length (buf a) = n0 * n1 * n2 \<Longrightarrow>
        body x y z a = (if c x y z then setitem a (x, y, z) (g x y z) else Inr a)"
  shows "\<exists>a'. for_loop (range_py (int n2)) (\<lambda>z.
            for_loop (range_py (int n1)) (\<lambda>y.
              for_loop (range_py (int n0)) (\<lambda>x. body x y z))) (np_zeros (n0, n1, n2)) = Inr a'
          \<and> shape a' = (n0, n1, n2) \<and> length (buf a') = n0 * n1 * n2
          \<and> (\<forall>i < n0. \<forall>j < n1. \<forall>k < n2.
                buf a' ! flat_index (n0, n1, n2) (i, j, k) =
                  (if c (int i) (int j) (int k) then g (int i) (int j) (int k) else 0))"
proof -
  let ?shp = "(n0, n1, n2)"
  let ?N = "n0 * n1 * n2"
  define G where "G p = g (int (p div n2 div n1)) (int (p div n2 mod n1)) (int (p mod n2))" for p
  define W where "W x y z = (if c x y z then {flat_index ?shp (nat x, nat y, nat z)} else {})"
    for x y z
  have G_flat: "G (flat_index ?shp (nat x, nat y, nat z)) = g x y z"
    if "0 \<le> x" "0 \<le> y" "y < int n1" "0 \<le> z" "z < int n2" for x y z
    using that by (simp add: G_def)
  have voxel: "\<exists>a'. body x y z a = Inr a' \<and> writes_only (W x y z) G a a'"
    if "x \<in> set (range_py (int n0))" "y \<in> set (range_py (int n1))" "z \<in> set (range_py (int n2))"
       "shape a = ?shp" "length (buf a) = ?N" for x y z a
  proof -
    have r: "0 \<le> x" "x < int n0" "0 \<le> y" "y < int n1" "0 \<le> z" "z < int n2"
      using that(1-3) by (simp_all add: set_range_py)
    show ?thesis
    proof (cases "c x y z")
      case True
      then show ?thesis
        using setitem_writes [OF r that(4,5), of G "g x y z"] G_flat r body [OF r that(4,5)]
        by (simp add: W_def)
    next
      case False
      then show ?thesis
        using body [OF r that(4,5)] by (simp add: W_def writes_only_refl)
    qed
  qed
  have row: "\<exists>a'. for_loop (range_py (int n0)) (\<lambda>x. body x y z) a = Inr a' \<and>
        writes_only (\<Union>x\<in>set (range_py (int n0)). W x y z) G a a'"
    if "y \<in> set (range_py (int n1))" "z \<in> set (range_py (int n2))"
       "shape a = ?shp" "length (buf a) = ?N" for y z a
    using that by (intro for_loop_writes [where shp = ?shp and N = ?N]) (simp_all add: voxel)
  have slice: "\<exists>a'. for_loop (range_py (int n1)) (\<lambda>y. for_loop (range_py (int n0)) (\<lambda>x. body x y z)) a = Inr a' \<and>
        writes_only (\<Union>y\<in>set (range_py (int n1)). \<Union>x\<in>set (range_py (int n0)). W x y z) G a a'"
    if "z \<in> set (range_py (int n2))" "shape a = ?shp" "length (buf a) = ?N" for z a
    using that
    by (intro for_loop_writes [where shp = ?shp and N = ?N
          and W = "\<lambda>y. \<Union>x\<in>set (range_py (int n0)). W x y z"]) (simp_all add: row)
  define Wall where "Wall = (\<Union>z\<in>set (range_py (int n2)). \<Union>y\<in>set (range_py (int n1)).
      \<Union>x\<in>set (range_py (int n0)). W x y z)"
  obtain a' where a': "for_loop (range_py (int n2)) (\<lambda>z.
            for_loop (range_py (int n1)) (\<lambda>y.
              for_loop (range_py (int n0)) (\<lambda>x. body x y z))) (np_zeros ?shp) = Inr a'"
      and w: "writes_only Wall G (np_zeros ?shp) a'"
    using for_loop_writes [where shp = ?shp and N = ?N and xs = "range_py (int n2)"
        and W = "\<lambda>z. \<Union>y\<in>set (range_py (int n1)). \<Union>x\<in>set (range_py (int n0)). W x y z"
        and G = G and a = "np_zeros ?shp"
        and body = "\<lambda>z. for_loop (range_py (int n1)) (\<lambda>y. for_loop (range_py (int n0)) (\<lambda>x. body x y z))"]
      slice
    unfolding Wall_def by (auto simp: np_zeros_shape np_zeros_length)
  have mem: "flat_index ?shp (i, j, k) \<in> Wall \<longleftrightarrow> c (int i) (int j) (int k)"
    if "i < n0" "j < n1" "k < n2" for i j k
  proof
    assume "flat_index ?shp (i, j, k) \<in> Wall"
    then obtain x y z where xyz: "0 \<le> x" "x < int n0" "0 \<le> y" "y < int n1" "0 \<le> z" "z < int n2"
        and in_W: "flat_index ?shp (i, j, k) \<in> W x y z"
      unfolding Wall_def by (auto simp: set_range_py)
    from in_W have cx: "c x y z" and eq: "flat_index ?shp (i, j, k) = flat_index ?shp (nat x, nat y, nat z)"
      by (auto simp: W_def split: if_splits)
    have "i = nat x \<and> j = nat y \<and> k = nat z"
      using xyz that by (intro flat_index_inj [OF _ _ _ _ eq]) simp_all
    with xyz cx show "c (int i) (int j) (int k)" by simp
  next
    assume "c (int i) (int j) (int k)"
    then have "flat_index ?shp (i, j, k) \<in> W (int i) (int j) (int k)"
      by (simp add: W_def)
    moreover have "int i \<in> set (range_py (int n0))" "int j \<in> set (range_py (int n1))"
        "int k \<in> set (range_py (int n2))"
      using that by (simp_all add: set_range_py)
    ultimately show "flat_index ?shp (i, j, k) \<in> Wall"
      unfolding Wall_def by blast
  qed
  have val: "buf a' ! flat_index ?shp (i, j, k) =
      (if c (int i) (int j) (int k) then g (int i) (int j) (int k) else 0)"
    if "i < n0" "j < n1" "k < n2" for i j k
  proof -
    have lt: "flat_index ?shp (i, j, k) < ?N" using that by (rule flat_index_bound)
    then have "buf a' ! flat_index ?shp (i, j, k) =
        (if flat_index ?shp (i, j, k) \<in> Wall then G (flat_index ?shp (i, j, k))
         else buf (np_zeros ?shp) ! flat_index ?shp (i, j, k))"
      using w by (simp add: writes_only_def np_zeros_length)
    moreover have "G (flat_index ?shp (i, j, k)) = g (int i) (int j) (int k)"
      using G_flat [of "int i" "int j" "int k"] that by simp
    ultimately show ?thesis
      using mem [OF that] lt by (simp add: np_zeros_nth)
  qed
  have "shape a' = ?shp" "length (buf a') = ?N"
    using w by (simp_all add: writes_only_def np_zeros_shape np_zeros_length)
  with a' val show ?thesis by blast
qed

section \<open>The gradient array of generate_test_data.py\<close>

lemma fold_const_updates_length:
  "length (fold (\<lambda>q b. b[pos q := v]) qs b) = length b"
  by (induction qs arbitrary: b) simp_all

lemma fold_const_updates_nth:
  "p < length b \<Longrightarrow>
   fold (\<lambda>q b. b[pos q := v]) qs b ! p = (if p \<in> pos ` set qs then v else b ! p)"
proof (induction qs arbitrary: b)
  case Nil
  then show ?case by simp
next
  case (Cons q qs)
  then show ?case by (auto simp: nth_list_update)
qed

lemma setitem_last_axis_writes:
  assumes "0 \<le> z" "z < int n2"
      and "shape a = (n0, n1, n2)" "length (buf a) = n0 * n1 * n2"
      and G: "\<And>p. p mod n2 = nat z \<Longrightarrow> G p = v"
  shows "\<exists>a'. setitem_last_axis a z v = Inr a' \<and>
           writes_only {p. p < n0 * n1 * n2 \<and> p mod n2 = nat z} G a a'"
proof -
  let ?pos = "\<lambda>(i, j). flat_index (n0, n1, n2) (i, j, nat z)"
  let ?qs = "List.product [0..<n0] [0..<n1]"
  let ?b = "fold (\<lambda>q b. b[?pos q := v]) ?qs (buf a)"
  have eq: "setitem_last_axis a z v = Inr (a\<lparr>buf := ?b\<rparr>)"
    using assms(1-3) by (simp add: setitem_last_axis_def norm_index_def case_prod_unfold)
  have mem: "p \<in> ?pos ` set ?qs \<longleftrightarrow> p mod n2 = nat z" if "p < n0 * n1 * n2" for p
  proof
    assume "p \<in> ?pos ` set ?qs"
    then obtain i j where "p = (i * n1 + j) * n2 + nat z" by auto
    then show "p mod n2 = nat z" using assms(1,2) by simp
  next
    assume pz: "p mod n2 = nat z"
    let ?i = "p div n2 div n1" and ?j = "p div n2 mod n1"
    have n2: "0 < n2" using assms(1,2) by simp
    have "p div n2 < n0 * n1"
      using that n2 by (simp add: less_mult_imp_div_less)
    then have i: "?i < n0"
      by (metis less_mult_imp_div_less)
    have n1: "0 < n1" using \<open>p div n2 < n0 * n1\<close> by (cases n1) simp_all
    then have j: "?j < n1" by simp
    have "p = (?i * n1 + ?j) * n2 + nat z"
      using pz by (metis div_mult_mod_eq)
    then have "p = ?pos (?i, ?j)" by simp
    moreover have "(?i, ?j) \<in> set ?qs" using i j by simp
    ultimately show "p \<in> ?pos ` set ?qs" by blast
  qed
  have "writes_only {p. p < n0 * n1 * n2 \<and> p mod n2 = nat z} G a (a\<lparr>buf := ?b\<rparr>)"
    unfolding writes_only_def
    using assms(4) G mem
    by (simp add: fold_const_updates_length fold_const_updates_nth)
  with eq show ?thesis by blast
qed

lemma gradient_step_writes:
  assumes "z \<in> set (range_py 64)" "shape a = (64, 64, 64)" "length (buf a) = 64 * 64 * 64"
  shows "\<exists>a'. gradient_step z a = Inr a' \<and>
     writes_only {p. p < 64 * 64 * 64 \<and> p mod 64 = nat z} (\<lambda>p. word_of_int (int (p mod 64) * 4)) a a'"
proof -
  have r: "0 \<le> z" "z < int 64" using assms(1) by (simp_all add: set_range_py)
  have "to_uint8 (z * 4) = Inr (word_of_int (z * 4))"
    using r by (simp add: to_uint8_def)
  moreover have "\<exists>a'. setitem_last_axis a z (word_of_int (z * 4)) = Inr a' \<and>
     writes_only {p. p < 64 * 64 * 64 \<and> p mod 64 = nat z} (\<lambda>p. word_of_int (int (p mod 64) * 4)) a a'"
    using r(1) by (intro setitem_last_axis_writes [OF r assms(2,3)]) simp
  ultimately show ?thesis by (simp add: gradient_step_def)
qed

lemma volume_uint8_ok:
  "\<exists>a. volume_uint8 = Inr a \<and> shape a = (64, 64, 64) \<and> length (buf a) = 64 * 64 * 64 \<and>
     (\<forall>p < 64 * 64 * 64. buf a ! p = word_of_int (int (p mod 64) * 4))"
proof -
  let ?G = "\<lambda>p. word_of_int (int (p mod 64) * 4) :: 8 word"
  let ?W = "\<lambda>z. {p. p < 64 * 64 * 64 \<and> p mod 64 = nat z}"
  obtain a where a: "volume_uint8 = Inr a"
      and w: "writes_only (\<Union>z\<in>set (range_py 64). ?W z) ?G (np_zeros (64, 64, 64)) a"
    unfolding volume_uint8_def
    using for_loop_writes [where xs = "range_py 64" and body = gradient_step and W = ?W
        and G = ?G and shp = "(64, 64, 64)" and N = "64 * 64 * 64" and a = "np_zeros (64, 64, 64)"]
      gradient_step_writes
    by (auto simp: np_zeros_shape np_zeros_length)
  have "p \<in> (\<Union>z\<in>set (range_py 64). ?W z)" if "p < 64 * 64 * 64" for p
  proof -
    have "int (p mod 64) \<in> set (range_py 64)" by (simp add: set_range_py)
    moreover have "p \<in> ?W (int (p mod 64))" using that by simp
    ultimately show ?thesis by blast
  qed
  then have "\<forall>p < 64 * 64 * 64. buf a ! p = ?G p"
    using w by (simp add: writes_only_def np_zeros_length)
  moreover have "shape a = (64, 64, 64)" "length (buf a) = 64 * 64 * 64"
    using w by (simp_all add: writes_only_def np_zeros_shape np_zeros_length)
  ultimately show ?thesis using a by blast
qed

section \<open>The checkerboards\<close>

lemma checker_voxel_np_eq:
  "checker_voxel_np x y z a =
     (if (x div 8 + y div 8 + z div 8) mod 2 = 0 then setitem a (x, y, z) 255 else Inr a)"
  by (simp add: checker_voxel_np_def block_size_def to_uint8_def Let_def parity_sum_mod2)

lemma volume_checker_ok:
  "\<exists>a. volume_checker = Inr a \<and> shape a = (64, 64, 64) \<and> length (buf a) = 64 * 64 * 64 \<and>
     (\<forall>i < 64. \<forall>j < 64. \<forall>k < 64.
        buf a ! flat_index (64, 64, 64) (i, j, k) =
          (if (int i div 8 + int j div 8 + int k div 8) mod 2 = 0 then 255 else 0))"
  unfolding volume_checker_def
  using voxel_loops_writes [where ?n0.0 = 64 and ?n1.0 = 64 and ?n2.0 = 64
      and body = checker_voxel_np
      and c = "\<lambda>x y z. (x div 8 + y div 8 + z div 8) mod 2 = 0" and g = "\<lambda>x y z. 255"]
  by (simp add: checker_voxel_np_eq)

lemma create_checkerboard_test_eq:
  "create_checkerboard_test = Inr \<lparr>
     raw = scan_order (\<lambda>x y z. if (x div 8 + y div 8 + z div 8) mod 2 = 0 then 255 else 0) 32 32 32,
     metadata = JDict [
       (''dimensions'', JList [JInt 32, JInt 32, JInt 32]),
       (''dataType'', JStr ''uint8''),
       (''byteOrder'', JStr ''little-endian''),
       (''spacing'', JList [JFloat 1.0, JFloat 1.0, JFloat 1.0]),
       (''description'', JStr ''32x32x32 checkerboard pattern'')] \<rparr>"
  by (simp add: create_checkerboard_test_def checker_data_ok)

lemma checker_raw_nth:
  assumes "create_checkerboard_test = Inr f" "x < 32" "y < 32" "z < 32"
  shows "raw f ! ((z * 32 + y) * 32 + x) =
     (if (int x div 8 + int y div 8 + int z div 8) mod 2 = 0 then 255 else 0)"
proof -
  let ?v = "\<lambda>x y z. if (x div 8 + y div 8 + z div 8) mod 2 = 0 then 255 else 0 :: byte"
  have "raw f = scan_order ?v 32 32 32"
    using assms(1) by (auto simp: create_checkerboard_test_eq)
  moreover have "scan_order ?v 32 32 32 ! ((z * nat 32 + y) * nat 32 + x) = ?v (int x) (int y) (int z)"
    using assms(2-4) by (intro nth_scan_order) simp_all
  ultimately show ?thesis by simp
qed

lemma checker_raw_length:
  assumes "create_checkerboard_test = Inr f"
  shows "length (raw f) = 32768"
  using assms by (auto simp: create_checkerboard_test_eq length_scan_order)

section \<open>Double precision rounding\<close>

subsection \<open>Rounding to the nearest integer, ties to even\<close>

lemma round_half_even_of_int: "round_half_even (of_int k) = k"
  by (simp add: round_half_even_def)

lemma round_half_even_floor:
  "round_half_even r = \<lfloor>r\<rfloor> \<or> round_half_even r = \<lfloor>r\<rfloor> + 1"
  by (simp add: round_half_even_def Let_def)

lemma round_half_even_near:
  "\<bar>of_int (round_half_even r) - r\<bar> \<le> 1 / 2"
proof -
  have "of_int \<lfloor>r\<rfloor> \<le> r" "r < of_int \<lfloor>r\<rfloor> + 1" by linarith+
  then show ?thesis
    by (auto simp: round_half_even_def Let_def abs_le_iff)
qed

lemma round_half_even_mono:
  assumes "r \<le> s"
  shows "round_half_even r \<le> round_half_even s"
proof (cases "\<lfloor>r\<rfloor> < \<lfloor>s\<rfloor>")
  case True
  have "round_half_even r \<le> \<lfloor>r\<rfloor> + 1"
    using round_half_even_floor [of r] by auto
  also have "\<dots> \<le> \<lfloor>s\<rfloor>" using True by simp
  also have "\<dots> \<le> round_half_even s"
    using round_half_even_floor [of s] by auto
  finally show ?thesis .
next
  case False
  then have eq: "\<lfloor>r\<rfloor> = \<lfloor>s\<rfloor>"
    using floor_mono [OF assms] by simp
  have "r - of_int \<lfloor>s\<rfloor> \<le> s - of_int \<lfloor>s\<rfloor>" using assms by simp
  then show ?thesis
    by (auto simp: round_half_even_def Let_def eq)
qed

subsection \<open>Rounding to double precision\<close>

lemma f64_ulp_pos: "0 < f64_ulp x"
  by (simp add: f64_ulp_def)

lemma f64_round_zero: "f64_round 0 = 0"
  by (simp add: f64_round_def)

lemma f64_round_nonneg:
  assumes "0 \<le> x"
  shows "0 \<le> f64_round x"
proof (cases "x = 0")
  case True
  then show ?thesis by (simp add: f64_round_zero)
next
  case False
  have "0 \<le> x / f64_ulp x" using assms f64_ulp_pos [of x] by simp
  then have "round_half_even 0 \<le> round_half_even (x / f64_ulp x)"
    by (rule round_half_even_mono)
  then have "0 \<le> round_half_even (x / f64_ulp x)"
    using round_half_even_of_int [of 0] by simp
  then show ?thesis
    using False f64_ulp_pos [of x] by (simp add: f64_round_def)
qed

lemma f64_round_exact:
  assumes "x / f64_ulp x = of_int m"
  shows "f64_round x = x"
proof (cases "x = 0")
  case True
  then show ?thesis by (simp add: f64_round_zero)
next
  case False
  have "f64_round x = of_int m * f64_ulp x"
    using False assms by (simp add: f64_round_def round_half_even_of_int)
  also have "\<dots> = x"
    using assms f64_ulp_pos [of x] by (simp add: field_simps)
  finally show ?thesis .
qed

lemma f64_exponent_eq:
  assumes "2 powr of_int k \<le> x" "x < 2 powr of_int (k + 1)" "- 1022 \<le> k"
  shows "f64_exponent x = k"
proof -
  have "0 < x" using assms(1) by (smt (verit) powr_gt_zero)
  then have "\<lfloor>log 2 \<bar>x\<bar>\<rfloor> = k"
    using assms(1,2) by (simp add: floor_log_eq_powr_iff)
  then show ?thesis using assms(3) by (simp add: f64_exponent_def)
qed

lemma f64_exponent_range:
  assumes "0 < x"
  shows "x < 2 powr of_int (f64_exponent x + 1)"
    and "- 1022 < f64_exponent x \<Longrightarrow> 2 powr of_int (f64_exponent x) \<le> x"
proof -
  let ?e = "\<lfloor>log 2 \<bar>x\<bar>\<rfloor>"
  have bounds: "2 powr of_int ?e \<le> x \<and> x < 2 powr of_int (?e + 1)"
    using assms floor_log_eq_powr_iff [of x 2 ?e] by simp
  have "2 powr of_int (?e + 1) \<le> (2::real) powr of_int (f64_exponent x + 1)"
    by (intro powr_mono) (simp_all add: f64_exponent_def)
  with bounds show "x < 2 powr of_int (f64_exponent x + 1)" by linarith
  show "2 powr of_int (f64_exponent x) \<le> x" if "- 1022 < f64_exponent x"
  proof -
    have "f64_exponent x = ?e" using that by (simp add: f64_exponent_def max_def split: if_splits)
    with bounds show ?thesis by simp
  qed
qed

lemma f64_exponent_mono:
  assumes "0 < x" "x \<le> y"
  shows "f64_exponent x \<le> f64_exponent y"
proof -
  have "log 2 \<bar>x\<bar> \<le> log 2 \<bar>y\<bar>" using assms by (simp add: log_mono)
  then have "\<lfloor>log 2 \<bar>x\<bar>\<rfloor> \<le> \<lfloor>log 2 \<bar>y\<bar>\<rfloor>" by (rule floor_mono)
  then show ?thesis by (simp add: f64_exponent_def)
qed

lemma f64_round_upper:
  assumes "0 < x"
  shows "f64_round x \<le> 2 powr of_int (f64_exponent x + 1)"
proof -
  let ?u = "f64_ulp x"
  have top: "2 powr of_int (f64_exponent x + 1) = of_int (2 ^ 53) * ?u"
  proof -
    have "of_int (f64_exponent x + 1) = (53::real) + (of_int (f64_exponent x) - 52)" by simp
    then have "2 powr of_int (f64_exponent x + 1) = 2 powr 53 * ?u"
      unfolding f64_ulp_def by (metis powr_add)
    then show ?thesis by simp
  qed
  have "x / ?u \<le> of_int (2 ^ 53)"
    using f64_exponent_range(1) [OF assms] f64_ulp_pos [of x] unfolding top
    by (simp add: field_simps)
  then have "round_half_even (x / ?u) \<le> round_half_even (of_int (2 ^ 53))"
    by (rule round_half_even_mono)
  then have "round_half_even (x / ?u) \<le> 2 ^ 53"
    by (simp only: round_half_even_of_int)
  then have "(of_int (round_half_even (x / ?u)) :: real) \<le> of_int (2 ^ 53)"
    by (simp only: of_int_le_iff)
  then have "of_int (round_half_even (x / ?u)) * ?u \<le> of_int (2 ^ 53) * ?u"
    using f64_ulp_pos [of x] by (simp only: mult_le_cancel_right_pos)
  then show ?thesis
    using assms unfolding top by (simp add: f64_round_def)
qed

lemma f64_round_lower:
  assumes "0 < x" "- 1022 < f64_exponent x"
  shows "2 powr of_int (f64_exponent x) \<le> f64_round x"
proof -
  let ?u = "f64_ulp x"
  have bot: "2 powr of_int (f64_exponent x) = of_int (2 ^ 52) * ?u"
  proof -
    have "of_int (f64_exponent x) = (52::real) + (of_int (f64_exponent x) - 52)" by simp
    then have "2 powr of_int (f64_exponent x) = 2 powr 52 * ?u"
      unfolding f64_ulp_def by (metis powr_add)
    then show ?thesis by simp
  qed
  have "of_int (2 ^ 52) \<le> x / ?u"
    using f64_exponent_range(2) [OF assms] f64_ulp_pos [of x] unfolding bot
    by (simp add: field_simps)
  then have "round_half_even (of_int (2 ^ 52)) \<le> round_half_even (x / ?u)"
    by (rule round_half_even_mono)
  then have "2 ^ 52 \<le> round_half_even (x / ?u)"
    by (simp only: round_half_even_of_int)
  then have "(of_int (2 ^ 52) :: real) \<le> of_int (round_half_even (x / ?u))"
    by (simp only: of_int_le_iff)
  then have "of_int (2 ^ 52) * ?u \<le> of_int (round_half_even (x / ?u)) * ?u"
    using f64_ulp_pos [of x] by (simp only: mult_le_cancel_right_pos)
  then show ?thesis
    using assms unfolding bot by (simp add: f64_round_def)
qed

lemma f64_round_mono:
  assumes "0 \<le> x" "x \<le> y"
  shows "f64_round x \<le> f64_round y"
proof (cases "x = 0")
  case True
  then show ?thesis using assms f64_round_nonneg [of y] by (simp add: f64_round_zero)
next
  case False
  then have x: "0 < x" and y: "0 < y" using assms by simp_all
  have le: "f64_exponent x \<le> f64_exponent y" using x assms(2) by (rule f64_exponent_mono)
  show ?thesis
  proof (cases "f64_exponent x = f64_exponent y")
    case True
    then have u: "f64_ulp x = f64_ulp y" by (simp add: f64_ulp_def)
    have "x / f64_ulp y \<le> y / f64_ulp y"
      using assms(2) f64_ulp_pos [of y] by (simp add: divide_right_mono)
    then have "round_half_even (x / f64_ulp y) \<le> round_half_even (y / f64_ulp y)"
      by (rule round_half_even_mono)
    then have "(of_int (round_half_even (x / f64_ulp y)) :: real) \<le> of_int (round_half_even (y / f64_ulp y))"
      by (simp only: of_int_le_iff)
    then have "of_int (round_half_even (x / f64_ulp y)) * f64_ulp y
        \<le> of_int (round_half_even (y / f64_ulp y)) * f64_ulp y"
      using f64_ulp_pos [of y] by (simp only: mult_le_cancel_right_pos)
    then show ?thesis using x y by (simp add: f64_round_def u)
  next
    case False
    with le have lt: "f64_exponent x + 1 \<le> f64_exponent y" by simp
    have "- 1022 \<le> f64_exponent x" by (simp add: f64_exponent_def)
    with lt have normal: "- 1022 < f64_exponent y" by simp
    have "f64_round x \<le> 2 powr of_int (f64_exponent x + 1)"
      using x by (rule f64_round_upper)
    also have "\<dots> \<le> 2 powr of_int (f64_exponent y)"
      using lt by (intro powr_mono) simp_all
    also have "\<dots> \<le> f64_round y"
      using y normal by (rule f64_round_lower)
    finally show ?thesis .
  qed
qed

subsection \<open>Representable numbers and the rounding error\<close>

lemma f64_round_dyadic:
  assumes "2 powr of_int k \<le> x" "x < 2 powr of_int (k + 1)" "- 1022 \<le> k"
      and "x * 2 powr (52 - of_int k) = of_int m"
  shows "f64_round x = x"
proof -
  have e: "f64_exponent x = k" using assms(1-3) by (rule f64_exponent_eq)
  have "x / f64_ulp x = x * 2 powr (52 - of_int k)"
    unfolding f64_ulp_def e by (simp add: powr_diff)
  with assms(4) show ?thesis by (intro f64_round_exact [of x m]) simp
qed

lemma f64_round_1: "f64_round 1 = 1"
  by (rule f64_round_dyadic [of 0 1 "2 ^ 52"]) simp_all

lemma f64_round_12: "f64_round 12 = 12"
  by (rule f64_round_dyadic [of 3 12 "12 * 2 ^ 49"]) simp_all

lemma f64_round_4095: "f64_round 4095 = 4095"
  by (rule f64_round_dyadic [of 11 4095 "4095 * 2 ^ 41"]) simp_all

lemma f64_round_383_32: "f64_round (383 / 32) = 383 / 32"
  by (rule f64_round_dyadic [of 3 "383 / 32" "383 * 2 ^ 44"]) simp_all

lemma f64_round_error:
  assumes "0 \<le> x" "x \<le> 2 powr of_int k" "- 1022 \<le> k"
  shows "\<bar>f64_round x - x\<bar> \<le> 2 powr (of_int k - 53)"
proof (cases "x = 0")
  case True
  then show ?thesis by (simp add: f64_round_zero)
next
  case False
  then have x: "0 < x" using assms(1) by simp
  let ?u = "f64_ulp x"
  have "log 2 x \<le> log 2 (2 powr of_int k)"
    using x assms(2) by (intro log_mono) simp_all
  then have "log 2 \<bar>x\<bar> \<le> of_int k" using x by simp
  then have "\<lfloor>log 2 \<bar>x\<bar>\<rfloor> \<le> k" by (simp add: floor_le_iff)
  then have e: "f64_exponent x \<le> k"
    using assms(3) by (simp add: f64_exponent_def)
  have "f64_round x - x = (of_int (round_half_even (x / ?u)) - x / ?u) * ?u"
    using False f64_ulp_pos [of x] by (simp add: f64_round_def field_simps)
  then have "\<bar>f64_round x - x\<bar> = \<bar>of_int (round_half_even (x / ?u)) - x / ?u\<bar> * ?u"
    using f64_ulp_pos [of x] by (simp add: abs_mult)
  also have "\<dots> \<le> (1 / 2) * ?u"
    using round_half_even_near [of "x / ?u"] f64_ulp_pos [of x]
    by (intro mult_right_mono) simp_all
  also have "\<dots> = 2 powr (of_int (f64_exponent x) - 53)"
  proof -
    have "of_int (f64_exponent x) - (52::real) = 1 + (of_int (f64_exponent x) - 53)" by simp
    then have "?u = 2 powr 1 * 2 powr (of_int (f64_exponent x) - 53)"
      unfolding f64_ulp_def by (metis powr_add)
    then show ?thesis by simp
  qed
  also have "\<dots> \<le> 2 powr (of_int k - 53)"
    using e by (intro powr_mono) simp_all
  finally show ?thesis .
qed

section \<open>The sphere\<close>

lemma f64_sqrt_nonneg: "0 \<le> x \<Longrightarrow> 0 \<le> f64_sqrt x"
  by (simp add: f64_sqrt_def f64_round_nonneg)

lemma f64_sqrt_lt_12_iff:
  assumes "0 \<le> n"
  shows "f64_sqrt (of_int n) < 12 \<longleftrightarrow> n < 144"
proof
  assume lt: "f64_sqrt (of_int n) < 12"
  show "n < 144"
  proof (rule ccontr)
    assume "\<not> n < 144"
    then have "(144::real) \<le> of_int n" by simp
    then have "sqrt 144 \<le> sqrt (of_int n)" by (simp only: real_sqrt_le_iff)
    moreover have "sqrt 144 = (12::real)" by (rule real_sqrt_unique) simp_all
    ultimately have "12 \<le> sqrt (of_int n)" by simp
    then have "f64_round 12 \<le> f64_round (sqrt (of_int n))"
      by (intro f64_round_mono) simp_all
    with lt show False by (simp add: f64_sqrt_def f64_round_12)
  qed
next
  assume "n < 144"
  then have "of_int n \<le> (383 / 32 :: real)\<^sup>2"
    by (simp add: power2_eq_square)
  then have "sqrt (of_int n) \<le> 383 / 32"
    by (intro real_le_lsqrt) simp_all
  then have "f64_round (sqrt (of_int n)) \<le> f64_round (383 / 32)"
    using assms by (intro f64_round_mono) simp_all
  then show "f64_sqrt (of_int n) < 12"
    by (simp add: f64_sqrt_def f64_round_383_32)
qed

lemma sphere_value_range:
  assumes "0 \<le> d" "d < 12"
  shows "0 \<le> sphere_value d" and "sphere_value d \<le> 4095"
proof -
  define q where "q = f64_div d 12"
  define s where "s = f64_sub 1 q"
  define p where "p = f64_mul s 4095"
  have q0: "0 \<le> q" using assms(1) by (simp add: q_def f64_div_def f64_round_nonneg)
  have "f64_round (d / 12) \<le> f64_round 1"
    using assms by (intro f64_round_mono) simp_all
  then have q1: "q \<le> 1" by (simp add: q_def f64_div_def f64_round_1)
  have s0: "0 \<le> s" using q1 by (simp add: s_def f64_sub_def f64_round_nonneg)
  have "f64_round (1 - q) \<le> f64_round 1"
    using q0 q1 by (intro f64_round_mono) simp_all
  then have s1: "s \<le> 1" by (simp add: s_def f64_sub_def f64_round_1)
  have p0: "0 \<le> p" using s0 by (simp add: p_def f64_mul_def f64_round_nonneg)
  have "f64_round (s * 4095) \<le> f64_round 4095"
    using s0 s1 by (intro f64_round_mono) simp_all
  then have p1: "p \<le> 4095" by (simp add: p_def f64_mul_def f64_round_4095)
  have v: "sphere_value d = \<lfloor>p\<rfloor>"
    using p0 by (simp add: sphere_value_def radius_def int_of_float_def p_def s_def q_def)
  show "0 \<le> sphere_value d" using p0 by (simp add: v)
  show "sphere_value d \<le> 4095" using p1 by (simp add: v floor_le_iff)
qed

lemma sphere_value_center: "sphere_value 0 = 4095"
  by (simp add: sphere_value_def radius_def int_of_float_def f64_mul_def f64_sub_def f64_div_def
      f64_round_zero f64_round_1 f64_round_4095)

lemma sphere_value_close:
  assumes "0 \<le> n" "n < 144"
  shows "\<bar>f64_mul (f64_sub 1 (f64_div (f64_sqrt (of_int n)) 12)) 4095
           - 4095 * (1 - sqrt (of_int n) / 12)\<bar> \<le> 1 / 2 ^ 38"
proof -
  define r where "r = sqrt (real_of_int n)"
  define d where "d = f64_sqrt (of_int n)"
  define q where "q = f64_div d 12"
  define s where "s = f64_sub 1 q"
  define p where "p = f64_mul s 4095"
  have r0: "0 \<le> r" using assms(1) by (simp add: r_def)
  have "real_of_int n \<le> 16\<^sup>2" using assms(2) by simp
  then have r16: "r \<le> 16" unfolding r_def by (intro real_le_lsqrt) simp_all
  have d0: "0 \<le> d" using assms(1) by (simp add: d_def f64_sqrt_nonneg)
  have d12: "d < 12" using assms by (simp add: d_def f64_sqrt_lt_12_iff)
  have "f64_round (d / 12) \<le> f64_round 1"
    using d0 d12 by (intro f64_round_mono) simp_all
  then have q1: "q \<le> 1" by (simp add: q_def f64_div_def f64_round_1)
  have q0: "0 \<le> q" using d0 by (simp add: q_def f64_div_def f64_round_nonneg)
  have s0: "0 \<le> s" using q1 by (simp add: s_def f64_sub_def f64_round_nonneg)
  have "f64_round (1 - q) \<le> f64_round 1"
    using q0 q1 by (intro f64_round_mono) simp_all
  then have s1: "s \<le> 1" by (simp add: s_def f64_sub_def f64_round_1)
  have e1: "\<bar>d - r\<bar> \<le> 1 / 2 ^ 49"
    using f64_round_error [of r 4] r0 r16
    by (simp add: d_def f64_sqrt_def r_def powr_minus divide_simps)
  have e2: "\<bar>q - d / 12\<bar> \<le> 1 / 2 ^ 53"
    using f64_round_error [of "d / 12" 0] d0 d12
    by (simp add: q_def f64_div_def powr_minus divide_simps)
  have e3: "\<bar>s - (1 - q)\<bar> \<le> 1 / 2 ^ 53"
    using f64_round_error [of "1 - q" 0] q0 q1
    by (simp add: s_def f64_sub_def powr_minus divide_simps)
  have e4: "\<bar>p - s * 4095\<bar> \<le> 1 / 2 ^ 41"
    using f64_round_error [of "s * 4095" 12] s0 s1
    by (simp add: p_def f64_mul_def powr_minus divide_simps)
  define a0 where "a0 = d - r"
  define a1 where "a1 = q - d / 12"
  define a2 where "a2 = s - (1 - q)"
  define a3 where "a3 = p - s * 4095"
  have decomp: "p - 4095 * (1 - r / 12) = a3 + 4095 * a2 - 4095 * a1 - (4095 / 12) * a0"
    by (simp add: a0_def a1_def a2_def a3_def field_simps)
  have "\<bar>a3 + 4095 * a2 - 4095 * a1 - (4095 / 12) * a0\<bar>
      \<le> \<bar>a3\<bar> + 4095 * \<bar>a2\<bar> + 4095 * \<bar>a1\<bar> + (4095 / 12) * \<bar>a0\<bar>"
    by linarith
  also have "\<dots> \<le> 1 / 2 ^ 41 + 4095 * (1 / 2 ^ 53) + 4095 * (1 / 2 ^ 53) + (4095 / 12) * (1 / 2 ^ 49)"
    using e1 e2 e3 e4 unfolding a0_def [symmetric] a1_def [symmetric] a2_def [symmetric] a3_def [symmetric]
    by (intro add_mono mult_left_mono) simp_all
  also have "\<dots> \<le> 1 / 2 ^ 38" by simp
  finally have "\<bar>p - 4095 * (1 - r / 12)\<bar> \<le> 1 / 2 ^ 38"
    unfolding decomp .
  then show ?thesis by (simp add: p_def s_def q_def d_def r_def)
qed

lemma uint_word_of_int_16:
  assumes "0 \<le> v" "v \<le> 65535"
  shows "uint (word_of_int v :: 16 word) = v"
  using assms by (simp add: uint_word_of_int take_bit_int_eq_self)

lemma sphere_dist_euclid: "sphere_dist x y z = f64_round (euclid_dist x y z)"
  by (simp add: sphere_dist_def euclid_dist_def f64_sqrt_def)

lemma euclid_dist_nonneg: "0 \<le> euclid_dist x y z"
  by (simp add: euclid_dist_def)

lemma euclid_dist_lt_radius_iff:
  "euclid_dist x y z < of_int radius \<longleftrightarrow> (x - 16)\<^sup>2 + (y - 16)\<^sup>2 + (z - 16)\<^sup>2 < 144"
proof -
  let ?n = "(x - 16)\<^sup>2 + (y - 16)\<^sup>2 + (z - 16)\<^sup>2"
  have "sqrt 144 = (12::real)" by (rule real_sqrt_unique) simp_all
  then have "sqrt (of_int ?n) < 12 \<longleftrightarrow> sqrt (of_int ?n) < sqrt 144" by simp
  also have "\<dots> \<longleftrightarrow> real_of_int ?n < 144" by (simp only: real_sqrt_less_iff)
  also have "\<dots> \<longleftrightarrow> ?n < 144" by linarith
  finally show ?thesis by (simp add: euclid_dist_def center_def radius_def)
qed

lemma sphere_dist_lt_radius_iff:
  "sphere_dist x y z < of_int radius \<longleftrightarrow> euclid_dist x y z < of_int radius"
proof -
  let ?n = "(x - 16)\<^sup>2 + (y - 16)\<^sup>2 + (z - 16)\<^sup>2"
  have "sphere_dist x y z = f64_sqrt (of_int ?n)"
    by (simp add: sphere_dist_def center_def)
  moreover have "0 \<le> ?n" by simp
  ultimately have "sphere_dist x y z < 12 \<longleftrightarrow> ?n < 144"
    by (simp only: f64_sqrt_lt_12_iff)
  then show ?thesis using euclid_dist_lt_radius_iff [of x y z] by (simp add: radius_def)
qed

lemma sphere_dist_nonneg: "0 \<le> sphere_dist x y z"
  by (simp add: sphere_dist_euclid f64_round_nonneg euclid_dist_nonneg)

lemma sphere_voxel_eq:
  "sphere_voxel x y z a =
     (if euclid_dist x y z < of_int radius
      then setitem a (x, y, z) (word_of_int (sphere_value (sphere_dist x y z)))
      else Inr a)"
proof (cases "euclid_dist x y z < of_int radius")
  case True
  then have lt: "sphere_dist x y z < of_int radius" by (simp add: sphere_dist_lt_radius_iff)
  then have "sphere_dist x y z < 12" by (simp add: radius_def)
  then have "0 \<le> sphere_value (sphere_dist x y z)" "sphere_value (sphere_dist x y z) \<le> 4095"
    using sphere_value_range [of "sphere_dist x y z"] sphere_dist_nonneg by simp_all
  then have "to_uint16 (sphere_value (sphere_dist x y z))
      = Inr (word_of_int (sphere_value (sphere_dist x y z)))"
    by (simp add: to_uint16_def)
  with True lt show ?thesis by (simp add: sphere_voxel_def Let_def)
next
  case False
  then have "\<not> sphere_dist x y z < of_int radius" by (simp add: sphere_dist_lt_radius_iff)
  with False show ?thesis by (simp add: sphere_voxel_def Let_def)
qed

lemma volume_uint16_ok:
  "\<exists>a. volume_uint16 = Inr a \<and> shape a = (32, 32, 32) \<and> length (buf a) = 32 * 32 * 32 \<and>
     (\<forall>i < 32. \<forall>j < 32. \<forall>k < 32.
        buf a ! flat_index (32, 32, 32) (i, j, k) =
          (if euclid_dist (int i) (int j) (int k) < of_int radius
           then word_of_int (sphere_value (sphere_dist (int i) (int j) (int k))) else 0))"
  unfolding volume_uint16_def
  using voxel_loops_writes [where ?n0.0 = 32 and ?n1.0 = 32 and ?n2.0 = 32
      and body = sphere_voxel
      and c = "\<lambda>x y z. euclid_dist x y z < of_int radius"
      and g = "\<lambda>x y z. word_of_int (sphere_value (sphere_dist x y z))"]
  by (simp add: sphere_voxel_eq)

lemma volume_uint16_getitem:
  assumes "volume_uint16 = Inr a" "0 \<le> x" "x < 32" "0 \<le> y" "y < 32" "0 \<le> z" "z < 32"
  shows "getitem a (x, y, z) =
     Inr (if euclid_dist x y z < of_int radius
          then word_of_int (sphere_value (sphere_dist x y z)) else 0)"
proof -
  obtain a' where a': "volume_uint16 = Inr a'" "shape a' = (32, 32, 32)"
      and v: "\<forall>i < 32. \<forall>j < 32. \<forall>k < 32.
        buf a' ! flat_index (32, 32, 32) (i, j, k) =
          (if euclid_dist (int i) (int j) (int k) < of_int radius
           then word_of_int (sphere_value (sphere_dist (int i) (int j) (int k))) else 0)"
    using volume_uint16_ok by blast
  have "Inr a' = (Inr a :: error + 16 word ndarray)" using a'(1) assms(1) by (rule trans [OF sym])
  then have eq: "a' = a" by (simp only: sum.inject)
  have "nat x < 32" "nat y < 32" "nat z < 32" using assms by simp_all
  then have "buf a' ! flat_index (32, 32, 32) (nat x, nat y, nat z) =
          (if euclid_dist (int (nat x)) (int (nat y)) (int (nat z)) < of_int radius
           then word_of_int (sphere_value (sphere_dist (int (nat x)) (int (nat y)) (int (nat z)))) else 0)"
    using v by blast
  moreover have "getitem a (x, y, z) = Inr (buf a ! flat_index (32, 32, 32) (nat x, nat y, nat z))"
    using assms a'(2) eq by (intro getitem_in_range) simp_all
  ultimately show ?thesis using assms eq by simp
qed

section \<open>What the files and the arrays hold\<close>

lemma declared_dims_sidecar:
  "declared_dims (JDict ((''dimensions'', JList [JInt w, JInt h, JInt d]) # rest)) = Some (w, h, d)"
  by (simp add: declared_dims_def)

lemma simple_file_voxel:
  assumes "x < 16" "y < 16" "z < 16"
  shows "file_voxel_of create_simple_test_volume x y z = Some (word_of_int ((int z * 255) div 15))"
proof -
  obtain f where f: "create_simple_test_volume = Inr f"
    by (simp add: create_simple_test_volume_eq)
  have "declared_dims (metadata f) = Some (16, 16, 16)"
    using f by (auto simp: create_simple_test_volume_eq declared_dims_sidecar)
  then have "file_voxel f x y z = Some (raw f ! ((z * 16 + y) * 16 + x))"
    using assms by (simp add: file_voxel_def)
  then show ?thesis
    unfolding file_voxel_of_def f using simple_raw_nth [OF f assms] by simp
qed

lemma checker_file_voxel:
  assumes "x < 32" "y < 32" "z < 32"
  shows "file_voxel_of create_checkerboard_test x y z =
     Some (if (int x div 8 + int y div 8 + int z div 8) mod 2 = 0 then 255 else 0)"
proof -
  obtain f where f: "create_checkerboard_test = Inr f"
    by (simp add: create_checkerboard_test_eq)
  have "declared_dims (metadata f) = Some (32, 32, 32)"
    using f by (auto simp: create_checkerboard_test_eq declared_dims_sidecar)
  then have "file_voxel f x y z = Some (raw f ! ((z * 32 + y) * 32 + x))"
    using assms by (simp add: file_voxel_def)
  then show ?thesis
    unfolding file_voxel_of_def f using checker_raw_nth [OF f assms] by simp
qed

lemma voxel_of_uint8:
  assumes "0 \<le> x" "x < 64" "0 \<le> y" "y < 64" "0 \<le> z" "z < 64"
  shows "voxel_of volume_uint8 (x, y, z) = Inr (word_of_int (z * 4))"
proof -
  obtain a where a: "volume_uint8 = Inr a" "shape a = (64, 64, 64)"
      and v: "\<forall>p < 64 * 64 * 64. buf a ! p = word_of_int (int (p mod 64) * 4)"
    using volume_uint8_ok by blast
  let ?p = "flat_index (64, 64, 64) (nat x, nat y, nat z)"
  have "?p < 64 * 64 * 64" using assms by (intro flat_index_bound) simp_all
  then have "buf a ! ?p = word_of_int (int (?p mod 64) * 4)" using v by blast
  moreover have "?p mod 64 = nat z"
    using assms by (intro flat_index_inverse(1)) simp_all
  moreover have "getitem a (x, y, z) = Inr (buf a ! ?p)"
    using assms a(2) by (intro getitem_in_range) simp_all
  ultimately show ?thesis unfolding voxel_of_def a(1) using assms(5) by simp
qed

lemma uint8_file_voxel:
  assumes "x < 64" "y < 64" "z < 64"
  shows "file_voxel_of create_test_volume_uint8 x y z = Some (word_of_int (int x * 4))"
proof -
  obtain a where a: "volume_uint8 = Inr a" "length (buf a) = 64 * 64 * 64"
      and v: "\<forall>p < 64 * 64 * 64. buf a ! p = word_of_int (int (p mod 64) * 4)"
    using volume_uint8_ok by blast
  let ?p = "(z * 64 + y) * 64 + x"
  have p: "?p = flat_index (64, 64, 64) (z, y, x)" by simp
  have "flat_index (64, 64, 64) (z, y, x) < 64 * 64 * 64"
    using assms by (intro flat_index_bound)
  then have "?p < 64 * 64 * 64" by (simp only: p)
  then have "buf a ! ?p = word_of_int (int (?p mod 64) * 4)" using v by blast
  moreover have "flat_index (64, 64, 64) (z, y, x) mod 64 = x"
    using assms by (intro flat_index_inverse(1))
  ultimately have "buf a ! ?p = word_of_int (int x * 4)" by (simp only: p)
  then show ?thesis
    unfolding file_voxel_of_def create_test_volume_uint8_def a(1) using assms
    by (simp add: file_voxel_def declared_dims_sidecar tofile_uint8_def)
qed

lemma voxel_of_checker:
  assumes "0 \<le> x" "x < 64" "0 \<le> y" "y < 64" "0 \<le> z" "z < 64"
  shows "voxel_of volume_checker (x, y, z) =
     Inr (if (x div 8 + y div 8 + z div 8) mod 2 = 0 then 255 else 0)"
proof -
  obtain a where a: "volume_checker = Inr a" "shape a = (64, 64, 64)"
      and v: "\<forall>i < 64. \<forall>j < 64. \<forall>k < 64.
        buf a ! flat_index (64, 64, 64) (i, j, k) =
          (if (int i div 8 + int j div 8 + int k div 8) mod 2 = 0 then 255 else 0)"
    using volume_checker_ok by blast
  have "nat x < 64" "nat y < 64" "nat z < 64" using assms by simp_all
  then have "buf a ! flat_index (64, 64, 64) (nat x, nat y, nat z) =
          (if (int (nat x) div 8 + int (nat y) div 8 + int (nat z) div 8) mod 2 = 0 then 255 else 0)"
    using v by blast
  moreover have "getitem a (x, y, z) = Inr (buf a ! flat_index (64, 64, 64) (nat x, nat y, nat z))"
    using assms a(2) by (intro getitem_in_range) simp_all
  ultimately show ?thesis unfolding voxel_of_def a(1) using assms by simp
qed

lemma voxel_of_uint16:
  assumes "0 \<le> x" "x < 32" "0 \<le> y" "y < 32" "0 \<le> z" "z < 32"
  shows "voxel_of volume_uint16 (x, y, z) =
     Inr (if euclid_dist x y z < of_int radius
          then word_of_int (sphere_value (sphere_dist x y z)) else 0)"
proof -
  obtain a where a: "volume_uint16 = Inr a" using volume_uint16_ok by blast
  show ?thesis
    unfolding voxel_of_def a using volume_uint16_getitem [OF a assms] by simp
qed

lemma length_tofile_uint16: "length (tofile_uint16 a) = 2 * length (buf a)"
proof -
  have "length (concat (map bytes_uint16 xs)) = 2 * length xs" for xs
    by (induction xs) (simp_all add: bytes_uint16_def)
  then show ?thesis by (simp add: tofile_uint16_def)
qed

section \<open>Order, parity, sizes and sidecars\<close>

lemma word8_of_int_mono:
  assumes "0 \<le> a" "a \<le> b" "b \<le> 255"
  shows "(word_of_int a :: 8 word) \<le> word_of_int b"
proof -
  have "uint (word_of_int a :: 8 word) = a" "uint (word_of_int b :: 8 word) = b"
    using assms by (simp_all add: uint_word_of_int take_bit_int_eq_self)
  then show ?thesis using assms(2) by (simp add: word_le_def)
qed

lemma adjacent_blocks_parity:
  assumes "adjacent_blocks (bx, by, bz) (bx', by', bz')"
  shows "((bx + by + bz) mod 2 = 0) \<noteq> ((bx' + by' + bz') mod 2 = 0)"
proof -
  have "\<bar>(bx + by + bz) - (bx' + by' + bz')\<bar> = 1"
    using assms by (auto simp: adjacent_blocks_def)
  then show ?thesis by presburger
qed

lemma opposite_parity:
  assumes "adjacent_blocks (block_of (x, y, z)) (block_of (x', y', z'))"
  shows "opposite (if (x div 8 + y div 8 + z div 8) mod 2 = 0 then 255 else 0)
                  (if (x' div 8 + y' div 8 + z' div 8) mod 2 = 0 then 255 else 0)"
  using adjacent_blocks_parity [of "x div 8" "y div 8" "z div 8" "x' div 8" "y' div 8" "z' div 8"]
    assms by (auto simp: block_of_def opposite_def)

lemma raw_length_simple: "raw_length_of create_simple_test_volume = Some 4096"
  by (simp add: raw_length_of_def create_simple_test_volume_eq length_scan_order)

lemma raw_length_checker32: "raw_length_of create_checkerboard_test = Some 32768"
  by (simp add: raw_length_of_def create_checkerboard_test_eq length_scan_order)

lemma raw_length_uint8: "raw_length_of create_test_volume_uint8 = Some 262144"
proof -
  obtain a where a: "volume_uint8 = Inr a" "length (buf a) = 64 * 64 * 64"
    using volume_uint8_ok by blast
  show ?thesis
    unfolding raw_length_of_def create_test_volume_uint8_def a(1)
    using a(2) by (simp add: tofile_uint8_def)
qed

lemma raw_length_uint16: "raw_length_of create_test_volume_uint16 = Some 65536"
proof -
  obtain a where a: "volume_uint16 = Inr a" "length (buf a) = 32 * 32 * 32"
    using volume_uint16_ok by blast
  show ?thesis
    unfolding raw_length_of_def create_test_volume_uint16_def a(1)
    using a(2) by (simp add: length_tofile_uint16)
qed

lemma raw_length_checker64: "raw_length_of create_test_volume_checker = Some 262144"
proof -
  obtain a where a: "volume_checker = Inr a" "length (buf a) = 64 * 64 * 64"
    using volume_checker_ok by blast
  show ?thesis
    unfolding raw_length_of_def create_test_volume_checker_def a(1)
    using a(2) by (simp add: tofile_uint8_def)
qed

lemma metadata_simple:
  "metadata_of create_simple_test_volume = Some (JDict [
      (''dimensions'', JList [JInt 16, JInt 16, JInt 16]),
      (''dataType'', JStr ''uint8''),
      (''byteOrder'', JStr ''little-endian''),
      (''spacing'', JList [JFloat 1.0, JFloat 1.0, JFloat 1.0]),
      (''description'', JStr ''Simple 16x16x16 gradient test volume'')])"
  by (simp add: metadata_of_def create_simple_test_volume_eq)

lemma metadata_checker32:
  "metadata_of create_checkerboard_test = Some (JDict [
      (''dimensions'', JList [JInt 32, JInt 32, JInt 32]),
      (''dataType'', JStr ''uint8''),
      (''byteOrder'', JStr ''little-endian''),
      (''spacing'', JList [JFloat 1.0, JFloat 1.0, JFloat 1.0]),
      (''description'', JStr ''32x32x32 checkerboard pattern'')])"
  by (simp add: metadata_of_def create_checkerboard_test_eq)

lemma metadata_uint8:
  "metadata_of create_test_volume_uint8 = Some (JDict [
      (''dimensions'', JList [JInt 64, JInt 64, JInt 64]),
      (''dataType'', JStr ''uint8''),
      (''byteOrder'', JStr ''little-endian''),
      (''spacing'', JList [JFloat 1.0, JFloat 1.0, JFloat 1.0]),
      (''description'', JStr ''Test gradient volume (uint8)'')])"
proof -
  obtain a where a: "volume_uint8 = Inr a" using volume_uint8_ok by blast
  show ?thesis unfolding metadata_of_def create_test_volume_uint8_def a by simp
qed

lemma metadata_uint16:
  "metadata_of create_test_volume_uint16 = Some (JDict [
      (''dimensions'', JList [JInt 32, JInt 32, JInt 32]),
      (''dataType'', JStr ''uint16''),
      (''byteOrder'', JStr ''little-endian''),
      (''spacing'', JList [JFloat 1.0, JFloat 1.0, JFloat 1.0]),
      (''description'', JStr ''Test sphere volume (uint16)'')])"
proof -
  obtain a where a: "volume_uint16 = Inr a" using volume_uint16_ok by blast
  show ?thesis unfolding metadata_of_def create_test_volume_uint16_def a by simp
qed

lemma metadata_checker64:
  "metadata_of create_test_volume_checker = Some (JDict [
      (''dimensions'', JList [JInt 64, JInt 64, JInt 64]),
      (''dataType'', JStr ''uint8''),
      (''byteOrder'', JStr ''little-endian''),
      (''spacing'', JList [JFloat 1.0, JFloat 1.0, JFloat 1.0]),
      (''description'', JStr ''3D checkerboard pattern'')])"
proof -
  obtain a where a: "volume_checker = Inr a" using volume_checker_ok by blast
  show ?thesis unfolding metadata_of_def create_test_volume_checker_def a by simp
qed

lemma declared_size_via_metadata:
  "declared_size_of g = Option.bind (metadata_of g) declared_byte_size"
  by (cases g) (simp_all add: declared_size_of_def metadata_of_def)

section \<open>Values inside the sphere\<close>

lemma sphere_value_inside:
  assumes "euclid_dist x y z < of_int radius"
  shows "0 \<le> sphere_value (sphere_dist x y z)" and "sphere_value (sphere_dist x y z) \<le> 4095"
proof -
  have "sphere_dist x y z < 12"
    using assms sphere_dist_lt_radius_iff [of x y z] by (simp add: radius_def)
  then show "0 \<le> sphere_value (sphere_dist x y z)" "sphere_value (sphere_dist x y z) \<le> 4095"
    using sphere_value_range [of "sphere_dist x y z"] sphere_dist_nonneg by simp_all
qed

lemma sphere_value_bounds:
  assumes "euclid_dist x y z < of_int radius"
  shows "4095 * (1 - euclid_dist x y z / of_int radius) - 1 - 1 / 2 ^ 38
           < of_int (sphere_value (sphere_dist x y z))"
    and "of_int (sphere_value (sphere_dist x y z))
           \<le> 4095 * (1 - euclid_dist x y z / of_int radius) + 1 / 2 ^ 38"
proof -
  define n where "n = (x - 16)\<^sup>2 + (y - 16)\<^sup>2 + (z - 16)\<^sup>2"
  define p where "p = f64_mul (f64_sub 1 (f64_div (f64_sqrt (of_int n)) 12)) 4095"
  have n: "0 \<le> n" "n < 144"
    using assms by (simp_all add: n_def euclid_dist_lt_radius_iff)
  have e: "euclid_dist x y z = sqrt (of_int n)"
    by (simp add: euclid_dist_def center_def n_def)
  have d: "sphere_dist x y z = f64_sqrt (of_int n)"
    by (simp add: sphere_dist_def center_def n_def)
  define E where "E = 4095 * (1 - sqrt (real_of_int n) / 12)"
  define c :: real where "c = 1 / 2 ^ 38"
  have close: "\<bar>p - E\<bar> \<le> c"
    unfolding p_def E_def c_def using n by (rule sphere_value_close)
  have b: "E - c \<le> p" "p \<le> E + c" using close by linarith+
  have EE: "4095 * (1 - euclid_dist x y z / of_int radius) = E"
    by (simp add: E_def e radius_def)
  have d0: "0 \<le> f64_sqrt (real_of_int n)" using n(1) by (simp add: f64_sqrt_nonneg)
  have d12: "f64_sqrt (real_of_int n) < 12" using n by (simp add: f64_sqrt_lt_12_iff)
  have q1: "f64_div (f64_sqrt (of_int n)) 12 \<le> 1"
  proof -
    have "f64_round (f64_sqrt (of_int n) / 12) \<le> f64_round 1"
      using d0 d12 by (intro f64_round_mono) simp_all
    then show ?thesis by (simp add: f64_div_def f64_round_1)
  qed
  have p0: "0 \<le> p"
    unfolding p_def f64_mul_def f64_sub_def
    using q1 by (intro f64_round_nonneg mult_nonneg_nonneg) simp_all
  have v: "sphere_value (sphere_dist x y z) = \<lfloor>p\<rfloor>"
    using p0 by (simp add: sphere_value_def d radius_def int_of_float_def p_def)
  have fl: "of_int \<lfloor>p\<rfloor> \<le> p" "p - 1 < of_int \<lfloor>p\<rfloor>" by linarith+
  show "4095 * (1 - euclid_dist x y z / of_int radius) - 1 - 1 / 2 ^ 38
           < of_int (sphere_value (sphere_dist x y z))"
    unfolding EE v c_def [symmetric] using b fl by linarith
  show "of_int (sphere_value (sphere_dist x y z))
           \<le> 4095 * (1 - euclid_dist x y z / of_int radius) + 1 / 2 ^ 38"
    unfolding EE v c_def [symmetric] using b fl by linarith
qed

lemma euclid_dist_zero_center:
  assumes "euclid_dist x y z = 0"
  shows "sphere_dist x y z = 0"
  using assms by (simp add: sphere_dist_euclid f64_round_zero)

lemma euclid_dist_28_16_16: "euclid_dist 28 16 16 = 12"
proof -
  have "sqrt 144 = (12::real)" by (rule real_sqrt_unique) simp_all
  then show ?thesis by (simp add: euclid_dist_def center_def)
qed

lemma euclid_dist_16_16_16: "euclid_dist 16 16 16 = 0"
  by (simp add: euclid_dist_def center_def)

lemma uint8_file_voxel_swap:
  assumes "x < 64" "y < 64" "z < 64"
  shows "map_option Inr (file_voxel_of create_test_volume_uint8 x y z)
     = Some (voxel_of volume_uint8 (int z, int y, int x))"
  using uint8_file_voxel [OF assms] voxel_of_uint8 [of "int z" "int y" "int x"] assms
  by simp

section \<open>The files of generate_test_data.py as a consumer reads them\<close>

lemma checker64_file_voxel:
  assumes "x < 64" "y < 64" "z < 64"
  shows "file_voxel_of create_test_volume_checker x y z =
     Some (if (int x div 8 + int y div 8 + int z div 8) mod 2 = 0 then 255 else 0)"
proof -
  obtain a where a: "volume_checker = Inr a"
      and v: "\<forall>i < 64. \<forall>j < 64. \<forall>k < 64.
        buf a ! flat_index (64, 64, 64) (i, j, k) =
          (if (int i div 8 + int j div 8 + int k div 8) mod 2 = 0 then 255 else 0)"
    using volume_checker_ok by blast
  have "buf a ! flat_index (64, 64, 64) (z, y, x) =
          (if (int z div 8 + int y div 8 + int x div 8) mod 2 = 0 then 255 else 0)"
    using v assms by blast
  moreover have "int z div 8 + int y div 8 + int x div 8 = int x div 8 + int y div 8 + int z div 8"
    by simp
  ultimately have "buf a ! ((z * 64 + y) * 64 + x) =
          (if (int x div 8 + int y div 8 + int z div 8) mod 2 = 0 then 255 else 0)"
    by (simp only: flat_index.simps)
  then show ?thesis
    unfolding file_voxel_of_def create_test_volume_checker_def a using assms
    by (simp add: file_voxel_def declared_dims_sidecar tofile_uint8_def)
qed

lemma checker64_file_matches_array:
  assumes "x < 64" "y < 64" "z < 64"
  shows "map_option Inr (file_voxel_of create_test_volume_checker x y z)
     = Some (voxel_of volume_checker (int x, int y, int z))"
  using checker64_file_voxel [OF assms] voxel_of_checker [of "int x" "int y" "int z"] assms
  by simp

lemma bytes_uint16_value:
  "word_of_nat (unat (ucast w :: 8 word) + 256 * unat (ucast (drop_bit 8 w) :: 8 word)) = (w :: 16 word)"
proof -
  have lo: "unat (ucast w :: 8 word) = unat w mod 256"
    by (simp add: unsigned_ucast_eq take_bit_eq_mod)
  have "unat (drop_bit 8 w) = unat w div 256"
    by (simp only: unat_drop_bit_eq) (simp add: drop_bit_eq_div)
  moreover have "unat w < 65536" using unsigned_less [of w, where ?'a = nat] by simp
  ultimately have hi: "unat (ucast (drop_bit 8 w) :: 8 word) = unat w div 256"
    by (simp add: unsigned_ucast_eq take_bit_eq_mod)
  have "unat w mod 256 + 256 * (unat w div 256) = unat w" by simp
  then show ?thesis by (simp add: lo hi)
qed

lemma tofile_uint16_nth:
  assumes "p < length (buf a)"
  shows "tofile_uint16 a ! (2 * p) = ucast (buf a ! p)"
    and "tofile_uint16 a ! (2 * p + 1) = ucast (drop_bit 8 (buf a ! p))"
proof -
  have eq: "tofile_uint16 a = concat (map (\<lambda>i. bytes_uint16 (buf a ! i)) [0..<length (buf a)])"
    unfolding tofile_uint16_def by (subst map_nth [symmetric]) (simp only: map_map comp_def)
  have len: "\<And>i. i < length (buf a) \<Longrightarrow> length (bytes_uint16 (buf a ! i)) = 2"
    by (simp add: bytes_uint16_def)
  have "concat (map (\<lambda>i. bytes_uint16 (buf a ! i)) [0..<length (buf a)]) ! (p * 2 + 0)
      = bytes_uint16 (buf a ! p) ! 0"
    using len assms by (intro nth_concat_upt) simp_all
  then show "tofile_uint16 a ! (2 * p) = ucast (buf a ! p)"
    by (simp add: eq bytes_uint16_def mult.commute)
  have "concat (map (\<lambda>i. bytes_uint16 (buf a ! i)) [0..<length (buf a)]) ! (p * 2 + 1)
      = bytes_uint16 (buf a ! p) ! 1"
    using len assms by (intro nth_concat_upt) simp_all
  then show "tofile_uint16 a ! (2 * p + 1) = ucast (drop_bit 8 (buf a ! p))"
    by (simp add: eq bytes_uint16_def mult.commute)
qed

lemma euclid_dist_swap: "euclid_dist z y x = euclid_dist x y z"
  by (simp add: euclid_dist_def add.commute add.left_commute)

lemma sphere_dist_swap: "sphere_dist z y x = sphere_dist x y z"
  by (simp add: sphere_dist_euclid euclid_dist_swap)

lemma uint16_file_voxel:
  assumes "x < 32" "y < 32" "z < 32"
  shows "file_voxel16_of create_test_volume_uint16 x y z =
     Some (if euclid_dist (int x) (int y) (int z) < of_int radius
           then word_of_int (sphere_value (sphere_dist (int x) (int y) (int z))) else 0)"
proof -
  obtain a where a: "volume_uint16 = Inr a" and len: "length (buf a) = 32 * 32 * 32"
      and v: "\<forall>i < 32. \<forall>j < 32. \<forall>k < 32.
        buf a ! flat_index (32, 32, 32) (i, j, k) =
          (if euclid_dist (int i) (int j) (int k) < of_int radius
           then word_of_int (sphere_value (sphere_dist (int i) (int j) (int k))) else 0)"
    using volume_uint16_ok by blast
  define p where "p = (z * 32 + y) * 32 + x"
  have p: "p = flat_index (32, 32, 32) (z, y, x)" by (simp add: p_def)
  have "flat_index (32, 32, 32) (z, y, x) < 32 * 32 * 32"
    using assms by (intro flat_index_bound)
  then have plt: "p < length (buf a)" by (simp only: p len)
  have "buf a ! p =
          (if euclid_dist (int z) (int y) (int x) < of_int radius
           then word_of_int (sphere_value (sphere_dist (int z) (int y) (int x))) else 0)"
    unfolding p using v assms by blast
  then have val: "buf a ! p =
          (if euclid_dist (int x) (int y) (int z) < of_int radius
           then word_of_int (sphere_value (sphere_dist (int x) (int y) (int z))) else 0)"
    by (simp only: euclid_dist_swap sphere_dist_swap)
  have "word_of_nat (unat (tofile_uint16 a ! (2 * p)) + 256 * unat (tofile_uint16 a ! (2 * p + 1)))
      = buf a ! p"
    by (simp only: tofile_uint16_nth [OF plt] bytes_uint16_value)
  then show ?thesis
    unfolding file_voxel16_of_def create_test_volume_uint16_def a val [symmetric]
    using assms
    by (simp add: file_voxel16_def declared_dims_sidecar p_def Let_def)
qed

lemma uint16_file_matches_array:
  assumes "x < 32" "y < 32" "z < 32"
  shows "map_option Inr (file_voxel16_of create_test_volume_uint16 x y z)
     = Some (voxel_of volume_uint16 (int x, int y, int z))"
  using uint16_file_voxel [OF assms] voxel_of_uint16 [of "int x" "int y" "int z"] assms
  by simp

section \<open>The properties of the specification\<close>

text \<open>
  C1, at the input where the code departs from it. The eight-bit gradient of
  \<^verbatim>\<open>generate_test_data.py\<close> stores 4 in \<^verbatim>\<open>volume[0, 0, 1]\<close> and 0 in \<^verbatim>\<open>volume[1, 0, 0]\<close>,
  but a consumer that reads the file with \<open>x\<close> fastest, as the sidecar has it, finds 0 at
  the voxel \<open>(0, 0, 1)\<close> and 4 at the voxel \<open>(1, 0, 0)\<close>: the array is written with its last
  index fastest.
\<close>

theorem uint8_gradient_written_z_fastest:
  "voxel_of volume_uint8 (0, 0, 1) = Inr 4 \<and>
   file_voxel_of create_test_volume_uint8 0 0 1 = Some 0 \<and>
   voxel_of volume_uint8 (1, 0, 0) = Inr 0 \<and>
   file_voxel_of create_test_volume_uint8 1 0 0 = Some 4"
  using voxel_of_uint8 [of 0 0 1] voxel_of_uint8 [of 1 0 0]
    uint8_file_voxel [of 0 0 1] uint8_file_voxel [of 1 0 0]
  by simp

text \<open>
  C2, as amended. In both gradient volumes the value does not decrease as \<open>z\<close> increases with
  \<open>x\<close> and \<open>y\<close> fixed, and it is 0 at the first \<open>z\<close>. At the last \<open>z\<close> it is 255 in the
  16 by 16 by 16 volume of \<^verbatim>\<open>generate_simple_test.py\<close> and 252 in the 64 by 64 by 64
  volume of \<^verbatim>\<open>generate_test_data.py\<close>, whose step is 4.
\<close>

theorem gradients_monotone_ends:
  "(\<forall>x < 16. \<forall>y < 16. \<forall>z' < 16. \<forall>z \<le> z'.
      \<exists>v v'. file_voxel_of create_simple_test_volume x y z = Some v \<and>
             file_voxel_of create_simple_test_volume x y z' = Some v' \<and> v \<le> v') \<and>
   (\<forall>x < 16. \<forall>y < 16.
      file_voxel_of create_simple_test_volume x y 0 = Some 0 \<and>
      file_voxel_of create_simple_test_volume x y 15 = Some 255) \<and>
   (\<forall>x < 64. \<forall>y < 64. \<forall>z' < 64. \<forall>z \<le> z'.
      \<exists>v v'. voxel_of volume_uint8 (int x, int y, int z) = Inr v \<and>
             voxel_of volume_uint8 (int x, int y, int z') = Inr v' \<and> v \<le> v') \<and>
   (\<forall>x < 64. \<forall>y < 64.
      voxel_of volume_uint8 (int x, int y, 0) = Inr 0 \<and>
      voxel_of volume_uint8 (int x, int y, 63) = Inr 252)"
proof -
  have s_mono: "\<exists>v v'. file_voxel_of create_simple_test_volume x y z = Some v \<and>
             file_voxel_of create_simple_test_volume x y z' = Some v' \<and> v \<le> v'"
    if "x < 16" "y < 16" "z' < 16" "z \<le> z'" for x y z z'
  proof -
    have z: "z < 16" using that(3,4) by simp
    have "0 \<le> (int z * 255) div 15" "(int z * 255) div 15 \<le> (int z' * 255) div 15"
         "(int z' * 255) div 15 \<le> 255"
      using that(3,4) by simp_all
    then have "(word_of_int ((int z * 255) div 15) :: 8 word) \<le> word_of_int ((int z' * 255) div 15)"
      by (rule word8_of_int_mono)
    then show ?thesis
      using simple_file_voxel [OF that(1,2) z] simple_file_voxel [OF that(1,2,3)] by blast
  qed
  have s_ends: "file_voxel_of create_simple_test_volume x y 0 = Some 0 \<and>
      file_voxel_of create_simple_test_volume x y 15 = Some 255" if "x < 16" "y < 16" for x y
    using simple_file_voxel [OF that, of 0] simple_file_voxel [OF that, of 15] by simp
  have n_mono: "\<exists>v v'. voxel_of volume_uint8 (int x, int y, int z) = Inr v \<and>
             voxel_of volume_uint8 (int x, int y, int z') = Inr v' \<and> v \<le> v'"
    if "x < 64" "y < 64" "z' < 64" "z \<le> z'" for x y z z'
  proof -
    have z: "z < 64" using that(3,4) by simp
    have "0 \<le> int z * 4" "int z * 4 \<le> int z' * 4" "int z' * 4 \<le> 255"
      using that(3,4) by simp_all
    then have "(word_of_int (int z * 4) :: 8 word) \<le> word_of_int (int z' * 4)"
      by (rule word8_of_int_mono)
    moreover have "voxel_of volume_uint8 (int x, int y, int z) = Inr (word_of_int (int z * 4))"
      using that(1,2) z by (intro voxel_of_uint8) simp_all
    moreover have "voxel_of volume_uint8 (int x, int y, int z') = Inr (word_of_int (int z' * 4))"
      using that(1,2,3) by (intro voxel_of_uint8) simp_all
    ultimately show ?thesis by blast
  qed
  have n_ends: "voxel_of volume_uint8 (int x, int y, 0) = Inr 0 \<and>
      voxel_of volume_uint8 (int x, int y, 63) = Inr 252" if "x < 64" "y < 64" for x y
    using voxel_of_uint8 [of "int x" "int y" 0] voxel_of_uint8 [of "int x" "int y" 63] that
    by simp
  have c1: "\<forall>x < 16. \<forall>y < 16. \<forall>z' < 16. \<forall>z \<le> z'.
      \<exists>v v'. file_voxel_of create_simple_test_volume x y z = Some v \<and>
             file_voxel_of create_simple_test_volume x y z' = Some v' \<and> v \<le> v'"
    by (intro allI impI) (rule s_mono)
  have c2: "\<forall>x < 16. \<forall>y < 16.
      file_voxel_of create_simple_test_volume x y 0 = Some 0 \<and>
      file_voxel_of create_simple_test_volume x y 15 = Some 255"
    by (intro allI impI) (rule s_ends)
  have c3: "\<forall>x < 64. \<forall>y < 64. \<forall>z' < 64. \<forall>z \<le> z'.
      \<exists>v v'. voxel_of volume_uint8 (int x, int y, int z) = Inr v \<and>
             voxel_of volume_uint8 (int x, int y, int z') = Inr v' \<and> v \<le> v'"
    by (intro allI impI) (rule n_mono)
  have c4: "\<forall>x < 64. \<forall>y < 64.
      voxel_of volume_uint8 (int x, int y, 0) = Inr 0 \<and>
      voxel_of volume_uint8 (int x, int y, 63) = Inr 252"
    by (intro allI impI) (rule n_ends)
  show ?thesis using c1 c2 c3 c4 by (intro conjI)
qed

theorem gradients_monotone_ends_witness:
  "(3::nat) < 16 \<and> (5::nat) < 16 \<and> (9::nat) < 16 \<and> (7::nat) \<le> 9 \<and>
   (\<exists>v v'. file_voxel_of create_simple_test_volume 3 5 7 = Some v \<and>
           file_voxel_of create_simple_test_volume 3 5 9 = Some v' \<and> v \<le> v') \<and>
   file_voxel_of create_simple_test_volume 3 5 0 = Some 0 \<and>
   file_voxel_of create_simple_test_volume 3 5 15 = Some 255 \<and>
   (40::nat) < 64 \<and> (50::nat) < 64 \<and> (60::nat) < 64 \<and> (20::nat) \<le> 60 \<and>
   (\<exists>v v'. voxel_of volume_uint8 (int 40, int 50, int 20) = Inr v \<and>
           voxel_of volume_uint8 (int 40, int 50, int 60) = Inr v' \<and> v \<le> v') \<and>
   voxel_of volume_uint8 (int 40, int 50, 0) = Inr 0 \<and>
   voxel_of volume_uint8 (int 40, int 50, 63) = Inr 252"
proof -
  have h: "(3::nat) < 16" "(5::nat) < 16" "(9::nat) < 16" "(7::nat) \<le> 9"
       "(40::nat) < 64" "(50::nat) < 64" "(60::nat) < 64" "(20::nat) \<le> 60" by simp_all
  note t = gradients_monotone_ends
  have a1: "\<exists>v v'. file_voxel_of create_simple_test_volume 3 5 7 = Some v \<and>
           file_voxel_of create_simple_test_volume 3 5 9 = Some v' \<and> v \<le> v'"
    using t [THEN conjunct1, rule_format, of 3 5 9 7] h by simp
  have a2: "file_voxel_of create_simple_test_volume 3 5 0 = Some 0 \<and>
      file_voxel_of create_simple_test_volume 3 5 15 = Some 255"
    using t [THEN conjunct2, THEN conjunct1, rule_format, of 3 5] h by simp
  have a3: "\<exists>v v'. voxel_of volume_uint8 (int 40, int 50, int 20) = Inr v \<and>
           voxel_of volume_uint8 (int 40, int 50, int 60) = Inr v' \<and> v \<le> v'"
    using t [THEN conjunct2, THEN conjunct2, THEN conjunct1, rule_format, of 40 50 60 20] h
    by simp
  have a4: "voxel_of volume_uint8 (int 40, int 50, 0) = Inr 0 \<and>
      voxel_of volume_uint8 (int 40, int 50, 63) = Inr 252"
    using t [THEN conjunct2, THEN conjunct2, THEN conjunct2, rule_format, of 40 50] h by simp
  show ?thesis using h a1 a2 a3 a4 by (intro conjI) simp_all
qed

theorem gradient_uint8_last_slice_counterexample:
  "voxel_of volume_uint8 (0, 0, 63) = Inr 252 \<and> voxel_of volume_uint8 (0, 0, 63) \<noteq> Inr 255"
  using voxel_of_uint8 [of 0 0 63] by simp

text \<open>
  C3, as amended. The gradient generator has no guard on the divisor \<open>depth - 1\<close>: it fixes
  the depth to 16, so that the divisor is 15 and generation succeeds. The same loop nest
  raises \<^verbatim>\<open>ZeroDivisionError\<close> when the depth is 1 and width and height are positive, and
  returns a buffer for all other dimensions; for a depth of 0 the body never runs.
\<close>

theorem gradient_divisor_unguarded:
  "(\<exists>data. gradient_data 16 16 16 = Inr data) \<and>
   raw_length_of create_simple_test_volume \<noteq> None \<and>
   (depth = 1 \<and> 0 < width \<and> 0 < height \<longrightarrow>
      gradient_data width height depth = Inl ZeroDivisionError) \<and>
   (\<not> (depth = 1 \<and> 0 < width \<and> 0 < height) \<longrightarrow>
      (\<exists>data. gradient_data width height depth = Inr data)) \<and>
   gradient_data width height 0 = Inr []"
proof -
  have ok16: "\<exists>data. gradient_data 16 16 16 = Inr data"
    by (simp add: gradient_data_ok)
  have made: "raw_length_of create_simple_test_volume \<noteq> None"
    by (simp add: raw_length_simple)
  have raises: "gradient_data width height depth = Inl ZeroDivisionError"
    if "depth = 1 \<and> 0 < width \<and> 0 < height"
    using that by (simp add: gradient_data_depth_one)
  have returns: "\<exists>data. gradient_data width height depth = Inr data"
    if "\<not> (depth = 1 \<and> 0 < width \<and> 0 < height)"
  proof (cases "2 \<le> depth")
    case True
    then show ?thesis by (simp add: gradient_data_ok)
  next
    case False
    then have "depth \<le> 0 \<or> height \<le> 0 \<or> width \<le> 0"
      using that by auto
    then show ?thesis by (simp add: gradient_data_empty)
  qed
  have zero: "gradient_data width height 0 = Inr []"
    by (simp add: gradient_data_empty)
  show ?thesis using ok16 made raises returns zero by (intro conjI impI)
qed

theorem gradient_divisor_unguarded_witness:
  "((1::int) = 1 \<and> (0::int) < 16 \<and> (0::int) < 16) \<and>
   gradient_data 16 16 1 = Inl ZeroDivisionError \<and>
   \<not> ((16::int) = 1 \<and> (0::int) < 16 \<and> (0::int) < 16) \<and>
   (\<exists>data. gradient_data 16 16 16 = Inr data) \<and>
   gradient_data 16 16 0 = Inr []"
proof -
  note t = gradient_divisor_unguarded
  have a: "gradient_data 16 16 1 = Inl ZeroDivisionError"
    using t [of 1 16 16, THEN conjunct2, THEN conjunct2, THEN conjunct1] by simp
  have b: "\<exists>data. gradient_data 16 16 16 = Inr data"
    using t [of 16 16 16, THEN conjunct2, THEN conjunct2, THEN conjunct2, THEN conjunct1]
    by simp
  have c: "gradient_data 16 16 0 = Inr []"
    using t [of 0 16 16, THEN conjunct2, THEN conjunct2, THEN conjunct2, THEN conjunct2] .
  show ?thesis using a b c by simp
qed

theorem gradient_depth_one_counterexample:
  "gradient_data 16 16 1 = Inl ZeroDivisionError"
  by (simp add: gradient_data_depth_one)

text \<open>
  C4. In the sphere volume, a voxel whose distance from the centre \<open>(16, 16, 16)\<close> is at
  least the radius 12 is zero, also when the distance is exactly the radius; the voxel at
  distance 0 is positive; a voxel at a distance below the radius holds the integer part of
  the double precision product for \<open>(1 - distance / radius) * 4095\<close>, which is within
  \<open>2\<^sup>-\<^sup>3\<^sup>8\<close> of the exact product before it is truncated.
\<close>

theorem sphere_falloff:
  "\<forall>x < 32. \<forall>y < 32. \<forall>z < 32.
     \<exists>v. voxel_of volume_uint16 (int x, int y, int z) = Inr v \<and>
       (of_int radius \<le> euclid_dist (int x) (int y) (int z) \<longrightarrow> v = 0) \<and>
       (euclid_dist (int x) (int y) (int z) = 0 \<longrightarrow> 0 < v) \<and>
       (euclid_dist (int x) (int y) (int z) < of_int radius \<longrightarrow>
          uint v = sphere_value (sphere_dist (int x) (int y) (int z)) \<and>
          4095 * (1 - euclid_dist (int x) (int y) (int z) / of_int radius) - 1 - 1 / 2 ^ 38
            < of_int (uint v) \<and>
          of_int (uint v)
            \<le> 4095 * (1 - euclid_dist (int x) (int y) (int z) / of_int radius) + 1 / 2 ^ 38)"
proof (intro allI impI)
  fix x y z :: nat
  assume r: "x < 32" "y < 32" "z < 32"
  let ?e = "euclid_dist (int x) (int y) (int z)"
  let ?s = "sphere_value (sphere_dist (int x) (int y) (int z))"
  define v :: "16 word" where "v = (if ?e < of_int radius then word_of_int ?s else 0)"
  have vox: "voxel_of volume_uint16 (int x, int y, int z) = Inr v"
    unfolding v_def using r by (intro voxel_of_uint16) simp_all
  have outside: "of_int radius \<le> ?e \<longrightarrow> v = 0"
    by (simp add: v_def)
  have inside: "?e < of_int radius \<longrightarrow>
      uint v = ?s \<and>
      4095 * (1 - ?e / of_int radius) - 1 - 1 / 2 ^ 38 < of_int (uint v) \<and>
      of_int (uint v) \<le> 4095 * (1 - ?e / of_int radius) + 1 / 2 ^ 38"
  proof
    assume lt: "?e < of_int radius"
    have s: "0 \<le> ?s" "?s \<le> 4095" using lt by (rule sphere_value_inside)+
    then have u: "uint (word_of_int ?s :: 16 word) = ?s"
      by (intro uint_word_of_int_16) simp_all
    have uv: "uint v = ?s" using lt u by (simp add: v_def)
    show "uint v = ?s \<and>
      4095 * (1 - ?e / of_int radius) - 1 - 1 / 2 ^ 38 < of_int (uint v) \<and>
      of_int (uint v) \<le> 4095 * (1 - ?e / of_int radius) + 1 / 2 ^ 38"
      unfolding uv using sphere_value_bounds [OF lt] by (intro conjI refl)
  qed
  have centre: "?e = 0 \<longrightarrow> 0 < v"
  proof
    assume z: "?e = 0"
    have lt: "?e < of_int radius" using z by (simp add: radius_def)
    have "?s = 4095"
      using z by (simp add: euclid_dist_zero_center sphere_value_center)
    then have "v = 4095" using lt by (simp add: v_def)
    then show "0 < v" by simp
  qed
  show "\<exists>v. voxel_of volume_uint16 (int x, int y, int z) = Inr v \<and>
       (of_int radius \<le> ?e \<longrightarrow> v = 0) \<and>
       (?e = 0 \<longrightarrow> 0 < v) \<and>
       (?e < of_int radius \<longrightarrow>
          uint v = ?s \<and>
          4095 * (1 - ?e / of_int radius) - 1 - 1 / 2 ^ 38 < of_int (uint v) \<and>
          of_int (uint v) \<le> 4095 * (1 - ?e / of_int radius) + 1 / 2 ^ 38)"
    using vox outside centre inside by (intro exI [of _ v] conjI)
qed

theorem sphere_falloff_witness:
  "(28::nat) < 32 \<and> (16::nat) < 32 \<and>
   of_int radius \<le> euclid_dist (int 28) (int 16) (int 16) \<and>
   voxel_of volume_uint16 (int 28, int 16, int 16) = Inr 0 \<and>
   euclid_dist (int 16) (int 16) (int 16) = 0 \<and>
   euclid_dist (int 16) (int 16) (int 16) < of_int radius \<and>
   (\<exists>v. voxel_of volume_uint16 (int 16, int 16, int 16) = Inr v \<and> 0 < v \<and>
      uint v = sphere_value (sphere_dist (int 16) (int 16) (int 16)))"
proof -
  note t = sphere_falloff
  have h: "(28::nat) < 32" "(16::nat) < 32" by simp_all
  have far: "of_int radius \<le> euclid_dist (int 28) (int 16) (int 16)"
    by (simp add: euclid_dist_28_16_16 radius_def)
  have mid: "euclid_dist (int 16) (int 16) (int 16) = 0"
    by (simp add: euclid_dist_16_16_16)
  have near: "euclid_dist (int 16) (int 16) (int 16) < of_int radius"
    by (simp add: euclid_dist_16_16_16 radius_def)
  have a: "voxel_of volume_uint16 (int 28, int 16, int 16) = Inr 0"
    using t [rule_format, of 28 16 16] h far by auto
  have b: "\<exists>v. voxel_of volume_uint16 (int 16, int 16, int 16) = Inr v \<and> 0 < v \<and>
      uint v = sphere_value (sphere_dist (int 16) (int 16) (int 16))"
    using t [rule_format, of 16 16 16] h mid near by auto
  show ?thesis using h far mid near a b by (intro conjI)
qed

text \<open>
  C5. In both checkerboard volumes (32 by 32 by 32 and 64 by 64 by 64, blocks of 8), two
  voxels whose blocks differ by exactly one along exactly one axis hold opposite values:
  one is 255 and the other is 0.
\<close>

theorem checkerboards_alternate:
  "(\<forall>x < 32. \<forall>y < 32. \<forall>z < 32. \<forall>x' < 32. \<forall>y' < 32. \<forall>z' < 32.
      adjacent_blocks (block_of (int x, int y, int z)) (block_of (int x', int y', int z')) \<longrightarrow>
      (\<exists>v v'. file_voxel_of create_checkerboard_test x y z = Some v \<and>
              file_voxel_of create_checkerboard_test x' y' z' = Some v' \<and> opposite v v')) \<and>
   (\<forall>x < 64. \<forall>y < 64. \<forall>z < 64. \<forall>x' < 64. \<forall>y' < 64. \<forall>z' < 64.
      adjacent_blocks (block_of (int x, int y, int z)) (block_of (int x', int y', int z')) \<longrightarrow>
      (\<exists>v v'. voxel_of volume_checker (int x, int y, int z) = Inr v \<and>
              voxel_of volume_checker (int x', int y', int z') = Inr v' \<and> opposite v v'))"
proof -
  have small: "\<exists>v v'. file_voxel_of create_checkerboard_test x y z = Some v \<and>
              file_voxel_of create_checkerboard_test x' y' z' = Some v' \<and> opposite v v'"
    if "x < 32" "y < 32" "z < 32" "x' < 32" "y' < 32" "z' < 32"
       "adjacent_blocks (block_of (int x, int y, int z)) (block_of (int x', int y', int z'))"
    for x y z x' y' z'
    using checker_file_voxel [OF that(1-3)] checker_file_voxel [OF that(4-6)]
      opposite_parity [OF that(7)] by blast
  have large: "\<exists>v v'. voxel_of volume_checker (int x, int y, int z) = Inr v \<and>
              voxel_of volume_checker (int x', int y', int z') = Inr v' \<and> opposite v v'"
    if "x < 64" "y < 64" "z < 64" "x' < 64" "y' < 64" "z' < 64"
       "adjacent_blocks (block_of (int x, int y, int z)) (block_of (int x', int y', int z'))"
    for x y z x' y' z'
  proof -
    have "voxel_of volume_checker (int x, int y, int z) =
        Inr (if (int x div 8 + int y div 8 + int z div 8) mod 2 = 0 then 255 else 0)"
      using that(1-3) by (intro voxel_of_checker) simp_all
    moreover have "voxel_of volume_checker (int x', int y', int z') =
        Inr (if (int x' div 8 + int y' div 8 + int z' div 8) mod 2 = 0 then 255 else 0)"
      using that(4-6) by (intro voxel_of_checker) simp_all
    ultimately show ?thesis using opposite_parity [OF that(7)] by blast
  qed
  have c1: "\<forall>x < 32. \<forall>y < 32. \<forall>z < 32. \<forall>x' < 32. \<forall>y' < 32. \<forall>z' < 32.
      adjacent_blocks (block_of (int x, int y, int z)) (block_of (int x', int y', int z')) \<longrightarrow>
      (\<exists>v v'. file_voxel_of create_checkerboard_test x y z = Some v \<and>
              file_voxel_of create_checkerboard_test x' y' z' = Some v' \<and> opposite v v')"
    by (intro allI impI) (rule small)
  have c2: "\<forall>x < 64. \<forall>y < 64. \<forall>z < 64. \<forall>x' < 64. \<forall>y' < 64. \<forall>z' < 64.
      adjacent_blocks (block_of (int x, int y, int z)) (block_of (int x', int y', int z')) \<longrightarrow>
      (\<exists>v v'. voxel_of volume_checker (int x, int y, int z) = Inr v \<and>
              voxel_of volume_checker (int x', int y', int z') = Inr v' \<and> opposite v v')"
    by (intro allI impI) (rule large)
  show ?thesis using c1 c2 by (intro conjI)
qed

theorem checkerboards_alternate_witness:
  "(3::nat) < 32 \<and> (5::nat) < 32 \<and> (7::nat) < 32 \<and> (12::nat) < 32 \<and>
   adjacent_blocks (block_of (int 3, int 5, int 7)) (block_of (int 12, int 5, int 7)) \<and>
   (\<exists>v v'. file_voxel_of create_checkerboard_test 3 5 7 = Some v \<and>
           file_voxel_of create_checkerboard_test 12 5 7 = Some v' \<and> opposite v v') \<and>
   (40::nat) < 64 \<and> (50::nat) < 64 \<and> (60::nat) < 64 \<and> (55::nat) < 64 \<and>
   adjacent_blocks (block_of (int 40, int 50, int 60)) (block_of (int 40, int 50, int 55)) \<and>
   (\<exists>v v'. voxel_of volume_checker (int 40, int 50, int 60) = Inr v \<and>
           voxel_of volume_checker (int 40, int 50, int 55) = Inr v' \<and> opposite v v')"
proof -
  note t = checkerboards_alternate
  have h: "(3::nat) < 32" "(5::nat) < 32" "(7::nat) < 32" "(12::nat) < 32"
       "(40::nat) < 64" "(50::nat) < 64" "(60::nat) < 64" "(55::nat) < 64" by simp_all
  have adj1: "adjacent_blocks (block_of (int 3, int 5, int 7)) (block_of (int 12, int 5, int 7))"
    by (simp add: adjacent_blocks_def block_of_def)
  have adj2: "adjacent_blocks (block_of (int 40, int 50, int 60)) (block_of (int 40, int 50, int 55))"
    by (simp add: adjacent_blocks_def block_of_def)
  have a1: "\<exists>v v'. file_voxel_of create_checkerboard_test 3 5 7 = Some v \<and>
           file_voxel_of create_checkerboard_test 12 5 7 = Some v' \<and> opposite v v'"
    using t [THEN conjunct1, rule_format, of 3 5 7 12 5 7] h adj1 by simp
  have a2: "\<exists>v v'. voxel_of volume_checker (int 40, int 50, int 60) = Inr v \<and>
           voxel_of volume_checker (int 40, int 50, int 55) = Inr v' \<and> opposite v v'"
    using t [THEN conjunct2, rule_format, of 40 50 60 40 50 55] h adj2 by simp
  show ?thesis using h adj1 adj2 a1 a2 by (intro conjI)
qed

text \<open>
  C6. For each of the five pairs the generators write, the length of the binary file is
  width times height times depth times the size of an element, and the size computed
  from the sidecar's \<^verbatim>\<open>dimensions\<close> and \<^verbatim>\<open>dataType\<close> is the length of the file.
\<close>

theorem byte_length_matches_metadata:
  "raw_length_of create_simple_test_volume = Some (16 * 16 * 16 * 1) \<and>
   declared_size_of create_simple_test_volume = raw_length_of create_simple_test_volume \<and>
   raw_length_of create_checkerboard_test = Some (32 * 32 * 32 * 1) \<and>
   declared_size_of create_checkerboard_test = raw_length_of create_checkerboard_test \<and>
   raw_length_of create_test_volume_uint8 = Some (64 * 64 * 64 * 1) \<and>
   declared_size_of create_test_volume_uint8 = raw_length_of create_test_volume_uint8 \<and>
   raw_length_of create_test_volume_uint16 = Some (32 * 32 * 32 * 2) \<and>
   declared_size_of create_test_volume_uint16 = raw_length_of create_test_volume_uint16 \<and>
   raw_length_of create_test_volume_checker = Some (64 * 64 * 64 * 1) \<and>
   declared_size_of create_test_volume_checker = raw_length_of create_test_volume_checker"
proof -
  have d1: "declared_size_of create_simple_test_volume = Some 4096"
    by (simp add: declared_size_via_metadata metadata_simple declared_byte_size_def
        declared_dims_def dtype_size_def)
  have d2: "declared_size_of create_checkerboard_test = Some 32768"
    by (simp add: declared_size_via_metadata metadata_checker32 declared_byte_size_def
        declared_dims_def dtype_size_def)
  have d3: "declared_size_of create_test_volume_uint8 = Some 262144"
    by (simp add: declared_size_via_metadata metadata_uint8 declared_byte_size_def
        declared_dims_def dtype_size_def)
  have d4: "declared_size_of create_test_volume_uint16 = Some 65536"
    by (simp add: declared_size_via_metadata metadata_uint16 declared_byte_size_def
        declared_dims_def dtype_size_def)
  have d5: "declared_size_of create_test_volume_checker = Some 262144"
    by (simp add: declared_size_via_metadata metadata_checker64 declared_byte_size_def
        declared_dims_def dtype_size_def)
  show ?thesis
    by (simp add: d1 d2 d3 d4 d5 raw_length_simple raw_length_checker32 raw_length_uint8
        raw_length_uint16 raw_length_checker64)
qed

text \<open>
  C7. Generating the 16 by 16 by 16 eight-bit gradient volume writes exactly 4096 bytes;
  every voxel with \<open>z = 0\<close> is 0 and every voxel with \<open>z = 15\<close> is 255.
\<close>

theorem simple_gradient_4096_bytes_ends:
  "raw_length_of create_simple_test_volume = Some 4096 \<and>
   (\<forall>x < 16. \<forall>y < 16.
      file_voxel_of create_simple_test_volume x y 0 = Some 0 \<and>
      file_voxel_of create_simple_test_volume x y 15 = Some 255)"
proof -
  have "file_voxel_of create_simple_test_volume x y 0 = Some 0" if "x < 16" "y < 16" for x y
    using simple_file_voxel [OF that, of 0] by simp
  moreover have "file_voxel_of create_simple_test_volume x y 15 = Some 255"
    if "x < 16" "y < 16" for x y
    using simple_file_voxel [OF that, of 15] by simp
  ultimately show ?thesis using raw_length_simple by blast
qed

theorem simple_gradient_4096_bytes_ends_witness:
  "(3::nat) < 16 \<and> (5::nat) < 16 \<and>
   raw_length_of create_simple_test_volume = Some 4096 \<and>
   file_voxel_of create_simple_test_volume 3 5 0 = Some 0 \<and>
   file_voxel_of create_simple_test_volume 3 5 15 = Some 255"
proof -
  have "(3::nat) < 16" "(5::nat) < 16" by simp_all
  then show ?thesis using simple_gradient_4096_bytes_ends by blast
qed

text \<open>
  C8. Every sidecar holds exactly the fields \<^verbatim>\<open>dimensions\<close>, \<^verbatim>\<open>dataType\<close>, \<^verbatim>\<open>byteOrder\<close>,
  \<^verbatim>\<open>spacing\<close> and \<^verbatim>\<open>description\<close>: the dimensions are the three integers width, height and
  depth, the data type is the tag of the element type of the binary file, the byte order
  is little-endian, the spacing is a list of three floats and the description a string.
\<close>

theorem sidecars_well_formed:
  "(\<exists>m. metadata_of create_simple_test_volume = Some m \<and>
        well_formed_sidecar (16, 16, 16) ''uint8'' m) \<and>
   (\<exists>m. metadata_of create_checkerboard_test = Some m \<and>
        well_formed_sidecar (32, 32, 32) ''uint8'' m) \<and>
   (\<exists>m. metadata_of create_test_volume_uint8 = Some m \<and>
        well_formed_sidecar (64, 64, 64) ''uint8'' m) \<and>
   (\<exists>m. metadata_of create_test_volume_uint16 = Some m \<and>
        well_formed_sidecar (32, 32, 32) ''uint16'' m) \<and>
   (\<exists>m. metadata_of create_test_volume_checker = Some m \<and>
        well_formed_sidecar (64, 64, 64) ''uint8'' m)"
  by (simp add: metadata_simple metadata_checker32 metadata_uint8 metadata_uint16
      metadata_checker64 well_formed_sidecar_def sidecar_fields_def declared_dims_def)

text \<open>
  C9. Every voxel of the sixteen-bit sphere volume is at most 4095.
\<close>

theorem sphere_values_at_most_4095:
  "\<forall>x < 32. \<forall>y < 32. \<forall>z < 32.
     \<exists>v. voxel_of volume_uint16 (int x, int y, int z) = Inr v \<and> unat v \<le> 4095"
proof (intro allI impI)
  fix x y z :: nat
  assume r: "x < 32" "y < 32" "z < 32"
  let ?s = "sphere_value (sphere_dist (int x) (int y) (int z))"
  have vox: "voxel_of volume_uint16 (int x, int y, int z) =
     Inr (if euclid_dist (int x) (int y) (int z) < of_int radius then word_of_int ?s else 0)"
    using r by (intro voxel_of_uint16) simp_all
  show "\<exists>v. voxel_of volume_uint16 (int x, int y, int z) = Inr v \<and> unat v \<le> 4095"
  proof (cases "euclid_dist (int x) (int y) (int z) < of_int radius")
    case True
    then have s: "0 \<le> ?s" "?s \<le> 4095" by (rule sphere_value_inside)+
    then have "uint (word_of_int ?s :: 16 word) = ?s"
      by (intro uint_word_of_int_16) simp_all
    then have "unat (word_of_int ?s :: 16 word) \<le> 4095"
      using s by (simp add: unat_eq_nat_uint)
    then show ?thesis using vox True by simp
  next
    case False
    then show ?thesis using vox by simp
  qed
qed

theorem sphere_values_at_most_4095_witness:
  "(16::nat) < 32 \<and>
   (\<exists>v. voxel_of volume_uint16 (int 16, int 16, int 16) = Inr v \<and> unat v \<le> 4095)"
proof -
  have h: "(16::nat) < 32" by simp
  have "\<exists>v. voxel_of volume_uint16 (int 16, int 16, int 16) = Inr v \<and> unat v \<le> 4095"
    using sphere_values_at_most_4095 [rule_format, of 16 16 16] h by simp
  then show ?thesis using h by (intro conjI)
qed

text \<open>
  C10. In both gradient volumes the value of a voxel depends on \<open>z\<close> only: every voxel
  \<open>(x, y, z)\<close> exists and equals the voxel \<open>(0, 0, z)\<close>. For the numpy generator the index
  is that of the array, \<^verbatim>\<open>volume[x, y, z]\<close>.
\<close>

theorem gradient_slices_uniform:
  "(\<forall>x < 16. \<forall>y < 16. \<forall>z < 16.
      file_voxel_of create_simple_test_volume x y z \<noteq> None \<and>
      file_voxel_of create_simple_test_volume x y z =
        file_voxel_of create_simple_test_volume 0 0 z) \<and>
   (\<forall>x < 64. \<forall>y < 64. \<forall>z < 64.
      (\<exists>v. voxel_of volume_uint8 (int x, int y, int z) = Inr v) \<and>
      voxel_of volume_uint8 (int x, int y, int z) = voxel_of volume_uint8 (0, 0, int z))"
proof -
  have "file_voxel_of create_simple_test_volume x y z \<noteq> None \<and>
      file_voxel_of create_simple_test_volume x y z =
        file_voxel_of create_simple_test_volume 0 0 z" if "x < 16" "y < 16" "z < 16" for x y z
    using simple_file_voxel [OF that] simple_file_voxel [of 0 0 z] that(3) by simp
  moreover have "(\<exists>v. voxel_of volume_uint8 (int x, int y, int z) = Inr v) \<and>
      voxel_of volume_uint8 (int x, int y, int z) = voxel_of volume_uint8 (0, 0, int z)"
    if "x < 64" "y < 64" "z < 64" for x y z
    using voxel_of_uint8 [of "int x" "int y" "int z"] voxel_of_uint8 [of 0 0 "int z"] that
    by simp
  ultimately show ?thesis by blast
qed

theorem gradient_slices_uniform_witness:
  "(3::nat) < 16 \<and> (5::nat) < 16 \<and> (7::nat) < 16 \<and>
   file_voxel_of create_simple_test_volume 3 5 7 \<noteq> None \<and>
   file_voxel_of create_simple_test_volume 3 5 7 = file_voxel_of create_simple_test_volume 0 0 7 \<and>
   (40::nat) < 64 \<and> (50::nat) < 64 \<and> (60::nat) < 64 \<and>
   (\<exists>v. voxel_of volume_uint8 (int 40, int 50, int 60) = Inr v) \<and>
   voxel_of volume_uint8 (int 40, int 50, int 60) = voxel_of volume_uint8 (0, 0, int 60)"
proof -
  have "(3::nat) < 16" "(5::nat) < 16" "(7::nat) < 16"
       "(40::nat) < 64" "(50::nat) < 64" "(60::nat) < 64" by simp_all
  then show ?thesis using gradient_slices_uniform by blast
qed

end
